theory Spec2Isabelle
  imports Complex_Main "HOL-Library.Word" "HOL-Library.Signed_Division"
begin

section \<open>Data model of rlgl.c (the OpenGL 3.3 / OpenGL ES 2 branch)\<close>

text \<open>
  The batching engine of \<^verbatim>\<open>src/rlgl.c\<close>, compiled with
  \<^verbatim>\<open>GRAPHICS_API_OPENGL_33\<close> or \<^verbatim>\<open>GRAPHICS_API_OPENGL_ES2\<close> and
  \<^verbatim>\<open>RLGL_STANDALONE\<close> (the build in which the file's own \<^verbatim>\<open>TraceLog\<close> is used).
  C globals become the fields of one state record; every function takes the state and
  returns the new one, or a fault.  A C \<^verbatim>\<open>float\<close> is only stored, copied and compared
  with the literals \<^verbatim>\<open>0.0f\<close> and \<^verbatim>\<open>-1.0f\<close> here, so it is read as the real number it
  denotes; the float arithmetic of the file (the depth increment, the matrix library)
  is taken as a parameter.  A C \<^verbatim>\<open>int\<close> counter is an \<open>int\<close>: every counter is bounded
  by an array length before it could overflow.
\<close>

type_synonym float = real
type_synonym byte = "8 word"
type_synonym GLuint = "32 word"

datatype Vector3 = Vector3 (vec_x: float) (vec_y: float) (vec_z: float)

record Matrix =
  m0 :: float   m4 :: float   m8 :: float    m12 :: float
  m1 :: float   m5 :: float   m9 :: float    m13 :: float
  m2 :: float   m6 :: float   m10 :: float   m14 :: float
  m3 :: float   m7 :: float   m11 :: float   m15 :: float

text \<open>\<^verbatim>\<open>VertexPositionColorBuffer\<close> (lines, triangles).\<close>

record VertexPositionColorBuffer =
  vCounter :: int
  cCounter :: int
  vertices :: "float list"
  colors :: "byte list"

text \<open>\<^verbatim>\<open>VertexPositionColorTextureIndexBuffer\<close> (quads): the same four fields, and the
  texture coordinates and indices.  An index is kept as the number the unsigned index
  type holds.\<close>

record VertexPositionColorTextureIndexBuffer = VertexPositionColorBuffer +
  tcCounter :: int
  texcoords :: "float list"
  indices :: "nat list"

record DrawCall =
  textureId :: GLuint
  vertexCount :: int

datatype TraceLogType = INFO | ERROR | WARNING | DEBUG | OTHER

text \<open>The enumerations of \<^verbatim>\<open>rlgl.h\<close>; the last constructor of each stands for any
  other \<^verbatim>\<open>int\<close> a caller passes.\<close>

datatype DrawMode = RL_LINES | RL_TRIANGLES | RL_QUADS | RL_DRAWMODE_OTHER
datatype MatrixMode = RL_PROJECTION | RL_MODELVIEW | RL_TEXTURE | RL_MATRIXMODE_OTHER

text \<open>\<^verbatim>\<open>Matrix *currentMatrix\<close> points to one of two globals.\<close>

datatype MatrixPtr = PtrModelview | PtrProjection

record Shader =
  shader_id :: GLuint
  vertexLoc :: int
  texcoordLoc :: int
  colorLoc :: int
  mvpLoc :: int
  mapDiffuseLoc :: int
  tintColorLoc :: int

datatype gl_enum =
  GL_ARRAY_BUFFER | GL_ELEMENT_ARRAY_BUFFER | GL_TEXTURE_2D | GL_FLOAT
  | GL_UNSIGNED_BYTE | GL_UNSIGNED_INT | GL_UNSIGNED_SHORT | GL_LINES | GL_TRIANGLES

text \<open>A pointer handed to \<^verbatim>\<open>glBufferSubData\<close> is the array it points to.\<close>

datatype gl_data = FloatArray "float list" | ByteArray "byte list"

text \<open>The OpenGL calls of \<^verbatim>\<open>rlglDraw\<close> and \<^verbatim>\<open>UpdateDefaultBuffers\<close>, recorded in
  call order.\<close>

datatype gl_call =
  GlBindVertexArray GLuint
  | GlBindBuffer gl_enum GLuint
  | GlBufferSubData gl_enum int int gl_data
  | GlUseProgram GLuint
  | GlUniformMatrix4fv int int bool "float list"
  | GlUniform1i int int
  | GlUniform4f int float float float float
  | GlBindTexture gl_enum GLuint
  | GlVertexAttribPointer int int gl_enum bool int int
  | GlEnableVertexAttribArray int
  | GlDrawArrays gl_enum int int
  | GlDrawElements gl_enum int gl_enum int

record rlgl_state =
  stack :: "Matrix list"
  stackCounter :: int
  modelview :: Matrix
  projection :: Matrix
  currentMatrix :: MatrixPtr
  currentMatrixMode :: MatrixMode
  currentDrawMode :: DrawMode
  currentDepth :: float
  lines :: VertexPositionColorBuffer
  triangles :: VertexPositionColorBuffer
  quads :: VertexPositionColorTextureIndexBuffer
  vaoLines :: GLuint
  vaoTriangles :: GLuint
  vaoQuads :: GLuint
  linesBuffer :: "GLuint list"
  trianglesBuffer :: "GLuint list"
  quadsBuffer :: "GLuint list"
  draws :: "DrawCall list"
  drawsCounter :: int
  tempBuffer :: "Vector3 list"
  tempBufferCount :: int
  useTempBuffer :: bool
  defaultShader :: Shader
  currentShader :: Shader
  vaoSupported :: bool
  whiteTexture :: GLuint
  stdout_log :: "(TraceLogType \<times> string \<times> int list) list"
  gl_calls :: "gl_call list"

text \<open>Two ways a call does not return: an access outside an array (undefined behaviour
  in C), and \<^verbatim>\<open>exit(1)\<close>, which carries the state the process had when it ended.\<close>

datatype fault = OutOfBounds | Exited int rlgl_state

type_synonym 'a result = "fault + 'a"

definition bindR :: "'a result \<Rightarrow> ('a \<Rightarrow> 'b result) \<Rightarrow> 'b result" where
  "bindR r f = (case r of Inl e \<Rightarrow> Inl e | Inr v \<Rightarrow> f v)"

text \<open>\<^verbatim>\<open>a[i]\<close> read and \<^verbatim>\<open>a[i] = v\<close>, on an array of the length it was allocated with.\<close>

definition rd :: "'a list \<Rightarrow> int \<Rightarrow> 'a result" where
  "rd a i = (if 0 \<le> i \<and> i < int (length a) then Inr (a ! nat i) else Inl OutOfBounds)"

definition wr :: "'a list \<Rightarrow> int \<Rightarrow> 'a \<Rightarrow> ('a list) result" where
  "wr a i v = (if 0 \<le> i \<and> i < int (length a) then Inr (a[nat i := v]) else Inl OutOfBounds)"

text \<open>\<^verbatim>\<open>for (int i = 0; i < n; i++) body\<close>, for a bound the body does not change: the
  body runs at each index in turn and the loop ends at the first fault.\<close>

fun forM :: "nat list \<Rightarrow> (nat \<Rightarrow> 's \<Rightarrow> 's result) \<Rightarrow> 's \<Rightarrow> 's result" where
  "forM [] body s = Inr s"
| "forM (i # rest) body s = bindR (body i s) (forM rest body)"

text \<open>What the file takes from headers that are not part of it: the batch limits of
  \<^verbatim>\<open>rlgl.h\<close>, the functions of \<^verbatim>\<open>raymath.h\<close>, the float addition of the depth
  increment, and which of the two back ends is compiled (it fixes the index type).\<close>

datatype graphics_api = GRAPHICS_API_OPENGL_33 | GRAPHICS_API_OPENGL_ES2

record env =
  MAX_LINES_BATCH :: int
  MAX_TRIANGLES_BATCH :: int
  MAX_QUADS_BATCH :: int
  MatrixIdentity :: Matrix
  MatrixMultiply :: "Matrix \<Rightarrow> Matrix \<Rightarrow> Matrix"
  VectorTransform :: "Vector3 \<Rightarrow> Matrix \<Rightarrow> Vector3"
  depth_increment :: "float \<Rightarrow> float"
  graphics_api :: graphics_api

definition MATRIX_STACK_SIZE :: int where "MATRIX_STACK_SIZE = 16"
definition MAX_DRAWS_BY_TEXTURE :: int where "MAX_DRAWS_BY_TEXTURE = 256"
definition TEMP_VERTEX_BUFFER_SIZE :: int where "TEMP_VERTEX_BUFFER_SIZE = 4096"

section \<open>Logging\<close>

text \<open>\<^verbatim>\<open>TraceLog\<close> (rlgl.c 2906): prints the message, and \<^verbatim>\<open>if (msgType == ERROR) exit(1)\<close>.
  The message is kept as its format string and arguments.\<close>

definition TraceLog :: "TraceLogType \<Rightarrow> string \<Rightarrow> int list \<Rightarrow> rlgl_state \<Rightarrow> rlgl_state result" where
  "TraceLog msgType txt args s =
     (let s' = s\<lparr>stdout_log := stdout_log s @ [(msgType, txt, args)]\<rparr>
      in if msgType = ERROR then Inl (Exited 1 s') else Inr s')"

section \<open>Matrix operations\<close>

definition deref_currentMatrix :: "rlgl_state \<Rightarrow> Matrix" where
  "deref_currentMatrix s =
     (case currentMatrix s of PtrModelview \<Rightarrow> modelview s | PtrProjection \<Rightarrow> projection s)"

definition assign_currentMatrix :: "Matrix \<Rightarrow> rlgl_state \<Rightarrow> rlgl_state" where
  "assign_currentMatrix m s =
     (case currentMatrix s of PtrModelview \<Rightarrow> s\<lparr>modelview := m\<rparr>
                            | PtrProjection \<Rightarrow> s\<lparr>projection := m\<rparr>)"

definition rlMatrixMode :: "MatrixMode \<Rightarrow> rlgl_state \<Rightarrow> rlgl_state" where
  "rlMatrixMode mode s =
     (let s1 = (if mode = RL_PROJECTION then s\<lparr>currentMatrix := PtrProjection\<rparr>
                else if mode = RL_MODELVIEW then s\<lparr>currentMatrix := PtrModelview\<rparr>
                else s)
      in s1\<lparr>currentMatrixMode := mode\<rparr>)"

definition rlLoadIdentity :: "env \<Rightarrow> rlgl_state \<Rightarrow> rlgl_state" where
  "rlLoadIdentity e s = assign_currentMatrix (MatrixIdentity e) s"

definition rlPushMatrix :: "env \<Rightarrow> rlgl_state \<Rightarrow> rlgl_state result" where
  "rlPushMatrix e s =
     bindR (if stackCounter s = MATRIX_STACK_SIZE - 1
            then TraceLog ERROR ''Stack Buffer Overflow (MAX %i Matrix)'' [MATRIX_STACK_SIZE] s
            else Inr s) (\<lambda>s1.
     bindR (wr (stack s1) (stackCounter s1) (deref_currentMatrix s1)) (\<lambda>st.
       let s2 = rlLoadIdentity e (s1\<lparr>stack := st\<rparr>);
           s3 = s2\<lparr>stackCounter := stackCounter s2 + 1\<rparr>
       in Inr (if currentMatrixMode s3 = RL_MODELVIEW then s3\<lparr>useTempBuffer := True\<rparr> else s3)))"

definition rlPopMatrix :: "rlgl_state \<Rightarrow> rlgl_state result" where
  "rlPopMatrix s =
     (if stackCounter s > 0
      then bindR (rd (stack s) (stackCounter s - 1)) (\<lambda>mat.
             let s1 = assign_currentMatrix mat s
             in Inr (s1\<lparr>stackCounter := stackCounter s1 - 1\<rparr>))
      else Inr s)"

definition rlMultMatrixf :: "env \<Rightarrow> Matrix \<Rightarrow> rlgl_state \<Rightarrow> rlgl_state" where
  "rlMultMatrixf e mat s =
     assign_currentMatrix (MatrixMultiply e (deref_currentMatrix s) mat) s"

section \<open>Vertex level operations\<close>

definition rlBegin :: "DrawMode \<Rightarrow> rlgl_state \<Rightarrow> rlgl_state" where
  "rlBegin mode s = s\<lparr>currentDrawMode := mode\<rparr>"

text \<open>The three stores \<^verbatim>\<open>vertices[3*vCounter] = x; ...[3*vCounter + 1] = y;
  ...[3*vCounter + 2] = z; vCounter++\<close>, written three times in \<^verbatim>\<open>rlVertex3f\<close>
  (once for each buffer).\<close>

definition store_vertex ::
  "float \<Rightarrow> float \<Rightarrow> float \<Rightarrow> 'a VertexPositionColorBuffer_scheme
     \<Rightarrow> ('a VertexPositionColorBuffer_scheme) result" where
  "store_vertex px py pz b =
     bindR (wr (vertices b) (3 * vCounter b) px) (\<lambda>v1.
     bindR (wr v1 (3 * vCounter b + 1) py) (\<lambda>v2.
     bindR (wr v2 (3 * vCounter b + 2) pz) (\<lambda>v3.
       Inr (b\<lparr>vertices := v3, vCounter := vCounter b + 1\<rparr>))))"

text \<open>\<^verbatim>\<open>draws[drawsCounter - 1].vertexCount++\<close>.\<close>

definition count_quad_vertex :: "rlgl_state \<Rightarrow> rlgl_state result" where
  "count_quad_vertex s =
     bindR (rd (draws s) (drawsCounter s - 1)) (\<lambda>d.
     bindR (wr (draws s) (drawsCounter s - 1) (d\<lparr>vertexCount := vertexCount d + 1\<rparr>)) (\<lambda>ds.
       Inr (s\<lparr>draws := ds\<rparr>)))"

definition rlVertex3f :: "env \<Rightarrow> float \<Rightarrow> float \<Rightarrow> float \<Rightarrow> rlgl_state \<Rightarrow> rlgl_state result" where
  "rlVertex3f e px py pz s =
     (if useTempBuffer s
      then bindR (wr (tempBuffer s) (tempBufferCount s) (Vector3 px py pz)) (\<lambda>tb.
             Inr (s\<lparr>tempBuffer := tb, tempBufferCount := tempBufferCount s + 1\<rparr>))
      else (case currentDrawMode s of
          RL_LINES \<Rightarrow>
            if vCounter (lines s) sdiv 2 < MAX_LINES_BATCH e
            then bindR (store_vertex px py pz (lines s)) (\<lambda>b. Inr (s\<lparr>lines := b\<rparr>))
            else TraceLog ERROR ''MAX_LINES_BATCH overflow'' [] s
        | RL_TRIANGLES \<Rightarrow>
            if vCounter (triangles s) sdiv 3 < MAX_TRIANGLES_BATCH e
            then bindR (store_vertex px py pz (triangles s)) (\<lambda>b. Inr (s\<lparr>triangles := b\<rparr>))
            else TraceLog ERROR ''MAX_TRIANGLES_BATCH overflow'' [] s
        | RL_QUADS \<Rightarrow>
            if vCounter (quads s) sdiv 4 < MAX_QUADS_BATCH e
            then bindR (store_vertex px py pz (quads s)) (\<lambda>b.
                   count_quad_vertex (s\<lparr>quads := b\<rparr>))
            else TraceLog ERROR ''MAX_QUADS_BATCH overflow'' [] s
        | RL_DRAWMODE_OTHER \<Rightarrow> Inr s))"

definition rlVertex2f :: "env \<Rightarrow> float \<Rightarrow> float \<Rightarrow> rlgl_state \<Rightarrow> rlgl_state result" where
  "rlVertex2f e px py s = rlVertex3f e px py (currentDepth s) s"

definition rlTexCoord2f :: "float \<Rightarrow> float \<Rightarrow> rlgl_state \<Rightarrow> rlgl_state result" where
  "rlTexCoord2f tx ty s =
     (if currentDrawMode s = RL_QUADS
      then bindR (wr (texcoords (quads s)) (2 * tcCounter (quads s)) tx) (\<lambda>t1.
           bindR (wr t1 (2 * tcCounter (quads s) + 1) ty) (\<lambda>t2.
             Inr (s\<lparr>quads := (quads s)\<lparr>texcoords := t2, tcCounter := tcCounter (quads s) + 1\<rparr>\<rparr>)))
      else Inr s)"

text \<open>The four stores and the increment of \<^verbatim>\<open>rlColor4ub\<close>, the same for each buffer.\<close>

definition store_color ::
  "byte \<Rightarrow> byte \<Rightarrow> byte \<Rightarrow> byte \<Rightarrow> 'a VertexPositionColorBuffer_scheme
     \<Rightarrow> ('a VertexPositionColorBuffer_scheme) result" where
  "store_color r g b a buf =
     bindR (wr (colors buf) (4 * cCounter buf) r) (\<lambda>c1.
     bindR (wr c1 (4 * cCounter buf + 1) g) (\<lambda>c2.
     bindR (wr c2 (4 * cCounter buf + 2) b) (\<lambda>c3.
     bindR (wr c3 (4 * cCounter buf + 3) a) (\<lambda>c4.
       Inr (buf\<lparr>colors := c4, cCounter := cCounter buf + 1\<rparr>)))))"

definition rlColor4ub :: "byte \<Rightarrow> byte \<Rightarrow> byte \<Rightarrow> byte \<Rightarrow> rlgl_state \<Rightarrow> rlgl_state result" where
  "rlColor4ub r g b a s =
     (case currentDrawMode s of
        RL_LINES \<Rightarrow> bindR (store_color r g b a (lines s)) (\<lambda>buf. Inr (s\<lparr>lines := buf\<rparr>))
      | RL_TRIANGLES \<Rightarrow> bindR (store_color r g b a (triangles s)) (\<lambda>buf. Inr (s\<lparr>triangles := buf\<rparr>))
      | RL_QUADS \<Rightarrow> bindR (store_color r g b a (quads s)) (\<lambda>buf. Inr (s\<lparr>quads := buf\<rparr>))
      | RL_DRAWMODE_OTHER \<Rightarrow> Inr s)"

text \<open>One round of the colour loop of \<^verbatim>\<open>rlEnd\<close>:
  \<^verbatim>\<open>colors[4*cCounter + j] = colors[4*cCounter - 4 + j]\<close> for j = 0..3, then
  \<^verbatim>\<open>cCounter++\<close>.\<close>

definition copy_elem :: "'a list \<Rightarrow> int \<Rightarrow> int \<Rightarrow> ('a list) result" where
  "copy_elem a dst src = bindR (rd a src) (\<lambda>v. wr a dst v)"

definition repeat_color ::
  "'a VertexPositionColorBuffer_scheme \<Rightarrow> ('a VertexPositionColorBuffer_scheme) result" where
  "repeat_color buf =
     bindR (copy_elem (colors buf) (4 * cCounter buf) (4 * cCounter buf - 4)) (\<lambda>c1.
     bindR (copy_elem c1 (4 * cCounter buf + 1) (4 * cCounter buf - 3)) (\<lambda>c2.
     bindR (copy_elem c2 (4 * cCounter buf + 2) (4 * cCounter buf - 2)) (\<lambda>c3.
     bindR (copy_elem c3 (4 * cCounter buf + 3) (4 * cCounter buf - 1)) (\<lambda>c4.
       Inr (buf\<lparr>colors := c4, cCounter := cCounter buf + 1\<rparr>)))))"

text \<open>\<^verbatim>\<open>if (vCounter != cCounter) { int addColors = vCounter - cCounter;
  for (int i = 0; i < addColors; i++) ... }\<close>.\<close>

definition add_colors ::
  "'a VertexPositionColorBuffer_scheme \<Rightarrow> ('a VertexPositionColorBuffer_scheme) result" where
  "add_colors buf =
     (if vCounter buf \<noteq> cCounter buf
      then forM [0..<nat (vCounter buf - cCounter buf)] (\<lambda>i. repeat_color) buf
      else Inr buf)"

text \<open>One round of the texcoord loop of \<^verbatim>\<open>rlEnd\<close>:
  \<^verbatim>\<open>texcoords[2*tcCounter] = 0.0f; texcoords[2*tcCounter + 1] = 0.0f; tcCounter++\<close>.\<close>

definition zero_texcoord ::
  "VertexPositionColorTextureIndexBuffer \<Rightarrow> VertexPositionColorTextureIndexBuffer result" where
  "zero_texcoord q =
     bindR (wr (texcoords q) (2 * tcCounter q) 0) (\<lambda>t1.
     bindR (wr t1 (2 * tcCounter q + 1) 0) (\<lambda>t2.
       Inr (q\<lparr>texcoords := t2, tcCounter := tcCounter q + 1\<rparr>)))"

definition add_texcoords ::
  "VertexPositionColorTextureIndexBuffer \<Rightarrow> VertexPositionColorTextureIndexBuffer result" where
  "add_texcoords q =
     (if vCounter q \<noteq> tcCounter q
      then forM [0..<nat (vCounter q - tcCounter q)] (\<lambda>i. zero_texcoord) q
      else Inr q)"

text \<open>The first part of \<^verbatim>\<open>rlEnd\<close>, \<^verbatim>\<open>if (useTempBuffer) { ... }\<close>: transform every
  staged point by \<^verbatim>\<open>*currentMatrix\<close>, lower the flag, hand every staged point to
  \<^verbatim>\<open>rlVertex3f\<close>, reset the count.\<close>

definition transform_temp :: "env \<Rightarrow> nat \<Rightarrow> rlgl_state \<Rightarrow> rlgl_state result" where
  "transform_temp e i s =
     bindR (rd (tempBuffer s) (int i)) (\<lambda>v.
     bindR (wr (tempBuffer s) (int i) (VectorTransform e v (deref_currentMatrix s))) (\<lambda>tb.
       Inr (s\<lparr>tempBuffer := tb\<rparr>)))"

definition replay_temp :: "env \<Rightarrow> nat \<Rightarrow> rlgl_state \<Rightarrow> rlgl_state result" where
  "replay_temp e i s =
     bindR (rd (tempBuffer s) (int i)) (\<lambda>v. rlVertex3f e (vec_x v) (vec_y v) (vec_z v) s)"

definition flush_temp :: "env \<Rightarrow> rlgl_state \<Rightarrow> rlgl_state result" where
  "flush_temp e s =
     (if useTempBuffer s
      then bindR (forM [0..<nat (tempBufferCount s)] (transform_temp e) s) (\<lambda>s1.
           let s2 = s1\<lparr>useTempBuffer := False\<rparr>
           in bindR (forM [0..<nat (tempBufferCount s2)] (replay_temp e) s2) (\<lambda>s3.
                Inr (s3\<lparr>tempBufferCount := 0\<rparr>)))
      else Inr s)"

text \<open>The second part, \<^verbatim>\<open>switch (currentDrawMode)\<close>.\<close>

definition reconcile :: "rlgl_state \<Rightarrow> rlgl_state result" where
  "reconcile s =
     (case currentDrawMode s of
        RL_LINES \<Rightarrow> bindR (add_colors (lines s)) (\<lambda>b. Inr (s\<lparr>lines := b\<rparr>))
      | RL_TRIANGLES \<Rightarrow> bindR (add_colors (triangles s)) (\<lambda>b. Inr (s\<lparr>triangles := b\<rparr>))
      | RL_QUADS \<Rightarrow> bindR (add_colors (quads s)) (\<lambda>q1.
                    bindR (add_texcoords q1) (\<lambda>q2. Inr (s\<lparr>quads := q2\<rparr>)))
      | RL_DRAWMODE_OTHER \<Rightarrow> Inr s)"

definition rlEnd :: "env \<Rightarrow> rlgl_state \<Rightarrow> rlgl_state result" where
  "rlEnd e s =
     bindR (flush_temp e s) (\<lambda>s1.
     bindR (reconcile s1) (\<lambda>s2.
       Inr (s2\<lparr>currentDepth := depth_increment e (currentDepth s2)\<rparr>)))"

section \<open>The draw-call ledger\<close>

text \<open>\<^verbatim>\<open>rlEnableTexture\<close> (rlgl.c 719), the OpenGL 3.3 / ES2 branch.\<close>

definition rlEnableTexture :: "GLuint \<Rightarrow> rlgl_state \<Rightarrow> rlgl_state result" where
  "rlEnableTexture tid s =
     bindR (rd (draws s) (drawsCounter s - 1)) (\<lambda>d.
       if textureId d \<noteq> tid
       then let s1 = (if vertexCount d > 0 then s\<lparr>drawsCounter := drawsCounter s + 1\<rparr> else s)
            in bindR (rd (draws s1) (drawsCounter s1 - 1)) (\<lambda>d1.
               bindR (wr (draws s1) (drawsCounter s1 - 1)
                        (d1\<lparr>textureId := tid, vertexCount := 0\<rparr>)) (\<lambda>ds.
                 Inr (s1\<lparr>draws := ds\<rparr>)))
       else Inr s)"

section \<open>Default buffers\<close>

text \<open>The index type of the quads buffer: \<^verbatim>\<open>unsigned int\<close> under OpenGL 3.3,
  \<^verbatim>\<open>unsigned short\<close> under OpenGL ES 2.  \<open>to_index\<close> is the conversion of an \<^verbatim>\<open>int\<close>
  to it.\<close>

definition index_bits :: "env \<Rightarrow> nat" where
  "index_bits e = (case graphics_api e of GRAPHICS_API_OPENGL_33 \<Rightarrow> 32
                                         | GRAPHICS_API_OPENGL_ES2 \<Rightarrow> 16)"

definition index_size :: "env \<Rightarrow> int" where
  "index_size e = (case graphics_api e of GRAPHICS_API_OPENGL_33 \<Rightarrow> 4
                                         | GRAPHICS_API_OPENGL_ES2 \<Rightarrow> 2)"

definition index_type :: "env \<Rightarrow> gl_enum" where
  "index_type e = (case graphics_api e of GRAPHICS_API_OPENGL_33 \<Rightarrow> GL_UNSIGNED_INT
                                         | GRAPHICS_API_OPENGL_ES2 \<Rightarrow> GL_UNSIGNED_SHORT)"

definition to_index :: "env \<Rightarrow> int \<Rightarrow> nat" where
  "to_index e v = nat (v mod 2 ^ index_bits e)"

text \<open>The body of the index loop of \<^verbatim>\<open>LoadDefaultBuffers\<close> (rlgl.c 2510), six stores.\<close>

definition store_quad_indices :: "env \<Rightarrow> int \<Rightarrow> int \<Rightarrow> nat list \<Rightarrow> (nat list) result" where
  "store_quad_indices e i k idx =
     bindR (wr idx i (to_index e (4 * k))) (\<lambda>a1.
     bindR (wr a1 (i + 1) (to_index e (4 * k + 1))) (\<lambda>a2.
     bindR (wr a2 (i + 2) (to_index e (4 * k + 2))) (\<lambda>a3.
     bindR (wr a3 (i + 3) (to_index e (4 * k))) (\<lambda>a4.
     bindR (wr a4 (i + 4) (to_index e (4 * k + 2))) (\<lambda>a5.
            wr a5 (i + 5) (to_index e (4 * k + 3)))))))"

text \<open>\<^verbatim>\<open>for (int i = 0; i < (6*MAX_QUADS_BATCH); i+=6) { ...; k++; }\<close>.\<close>

function index_loop :: "env \<Rightarrow> int \<Rightarrow> int \<Rightarrow> nat list \<Rightarrow> (nat list) result" where
  "index_loop e i k idx =
     (if i < 6 * MAX_QUADS_BATCH e
      then (case store_quad_indices e i k idx of
              Inl f \<Rightarrow> Inl f
            | Inr idx' \<Rightarrow> index_loop e (i + 6) (k + 1) idx')
      else Inr idx)"
  by pat_completeness auto
termination
  by (relation "measure (\<lambda>(e, i, k, idx). nat (6 * MAX_QUADS_BATCH e - i))") auto

text \<open>The index array of \<^verbatim>\<open>LoadDefaultBuffers\<close>: \<^verbatim>\<open>malloc\<close> of \<^verbatim>\<open>6*MAX_QUADS_BATCH\<close>
  indices (every one is then written by the loop, so the block is taken as zeros), and
  the loop from \<^verbatim>\<open>i = 0\<close>, \<^verbatim>\<open>k = 0\<close>.\<close>

definition quad_indices :: "env \<Rightarrow> (nat list) result" where
  "quad_indices e = index_loop e 0 0 (replicate (nat (6 * MAX_QUADS_BATCH e)) 0)"

text \<open>The state \<^verbatim>\<open>rlglInit\<close> leaves (rlgl.c 1000-1040, with the CPU part of
  \<^verbatim>\<open>LoadDefaultBuffers\<close> and the static initialisers).  What the OpenGL driver decides
  (object names, the shader, VAO support), what was logged, and the staged points'
  initial values are left open.\<close>

definition after_rlglInit :: "env \<Rightarrow> rlgl_state \<Rightarrow> bool" where
  "after_rlglInit e s \<longleftrightarrow>
     stackCounter s = 0
   \<and> stack s = replicate (nat MATRIX_STACK_SIZE) (MatrixIdentity e)
   \<and> projection s = MatrixIdentity e
   \<and> modelview s = MatrixIdentity e
   \<and> currentMatrix s = PtrModelview
   \<and> currentDrawMode s = RL_TRIANGLES
   \<and> currentDepth s = - 1
   \<and> currentShader s = defaultShader s
   \<and> lines s = \<lparr>vCounter = 0, cCounter = 0,
        vertices = replicate (nat (3 * 2 * MAX_LINES_BATCH e)) 0,
        colors = replicate (nat (4 * 2 * MAX_LINES_BATCH e)) 0\<rparr>
   \<and> triangles s = \<lparr>vCounter = 0, cCounter = 0,
        vertices = replicate (nat (3 * 3 * MAX_TRIANGLES_BATCH e)) 0,
        colors = replicate (nat (4 * 3 * MAX_TRIANGLES_BATCH e)) 0\<rparr>
   \<and> vCounter (quads s) = 0 \<and> cCounter (quads s) = 0 \<and> tcCounter (quads s) = 0
   \<and> vertices (quads s) = replicate (nat (3 * 4 * MAX_QUADS_BATCH e)) 0
   \<and> texcoords (quads s) = replicate (nat (2 * 4 * MAX_QUADS_BATCH e)) 0
   \<and> colors (quads s) = replicate (nat (4 * 4 * MAX_QUADS_BATCH e)) 0
   \<and> quad_indices e = Inr (indices (quads s))
   \<and> length (linesBuffer s) = 2 \<and> length (trianglesBuffer s) = 2 \<and> length (quadsBuffer s) = 4
   \<and> length (tempBuffer s) = nat TEMP_VERTEX_BUFFER_SIZE
   \<and> tempBufferCount s = 0
   \<and> useTempBuffer s = False
   \<and> draws s = (replicate (nat MAX_DRAWS_BY_TEXTURE) \<lparr>textureId = 0, vertexCount = 0\<rparr>)
                  [0 := \<lparr>textureId = whiteTexture s, vertexCount = 0\<rparr>]
   \<and> drawsCounter s = 1"

section \<open>Flush\<close>

definition MatrixToFloat :: "Matrix \<Rightarrow> float list" where
  "MatrixToFloat mat =
     [m0 mat, m4 mat, m8 mat, m12 mat, m1 mat, m5 mat, m9 mat, m13 mat,
      m2 mat, m6 mat, m10 mat, m14 mat, m3 mat, m7 mat, m11 mat, m15 mat]"

text \<open>\<^verbatim>\<open>UpdateDefaultBuffers\<close> (rlgl.c 2630) only calls OpenGL: the calls it makes, in
  order.  \<^verbatim>\<open>sizeof(float)\<close> is 4.\<close>

definition UpdateDefaultBuffers :: "rlgl_state \<Rightarrow> gl_call list" where
  "UpdateDefaultBuffers s =
     (if vCounter (lines s) > 0
      then (if vaoSupported s then [GlBindVertexArray (vaoLines s)] else []) @
           [GlBindBuffer GL_ARRAY_BUFFER (linesBuffer s ! 0),
            GlBufferSubData GL_ARRAY_BUFFER 0 (4 * 3 * vCounter (lines s))
              (FloatArray (vertices (lines s))),
            GlBindBuffer GL_ARRAY_BUFFER (linesBuffer s ! 1),
            GlBufferSubData GL_ARRAY_BUFFER 0 (1 * 4 * cCounter (lines s))
              (ByteArray (colors (lines s)))]
      else []) @
     (if vCounter (triangles s) > 0
      then (if vaoSupported s then [GlBindVertexArray (vaoTriangles s)] else []) @
           [GlBindBuffer GL_ARRAY_BUFFER (trianglesBuffer s ! 0),
            GlBufferSubData GL_ARRAY_BUFFER 0 (4 * 3 * vCounter (triangles s))
              (FloatArray (vertices (triangles s))),
            GlBindBuffer GL_ARRAY_BUFFER (trianglesBuffer s ! 1),
            GlBufferSubData GL_ARRAY_BUFFER 0 (1 * 4 * cCounter (triangles s))
              (ByteArray (colors (triangles s)))]
      else []) @
     (if vCounter (quads s) > 0
      then (if vaoSupported s then [GlBindVertexArray (vaoQuads s)] else []) @
           [GlBindBuffer GL_ARRAY_BUFFER (quadsBuffer s ! 0),
            GlBufferSubData GL_ARRAY_BUFFER 0 (4 * 3 * vCounter (quads s))
              (FloatArray (vertices (quads s))),
            GlBindBuffer GL_ARRAY_BUFFER (quadsBuffer s ! 1),
            GlBufferSubData GL_ARRAY_BUFFER 0 (4 * 2 * vCounter (quads s))
              (FloatArray (texcoords (quads s))),
            GlBindBuffer GL_ARRAY_BUFFER (quadsBuffer s ! 2),
            GlBufferSubData GL_ARRAY_BUFFER 0 (1 * 4 * vCounter (quads s))
              (ByteArray (colors (quads s)))]
      else []) @
     (if vaoSupported s then [GlBindVertexArray 0] else [])"

text \<open>The attribute set-up made when VAOs are not supported, for a position buffer
  and a colour buffer (lines and triangles).\<close>

definition bind_position_color :: "rlgl_state \<Rightarrow> GLuint list \<Rightarrow> gl_call list" where
  "bind_position_color s bufs =
     [GlBindBuffer GL_ARRAY_BUFFER (bufs ! 0),
      GlVertexAttribPointer (vertexLoc (currentShader s)) 3 GL_FLOAT False 0 0,
      GlEnableVertexAttribArray (vertexLoc (currentShader s))] @
     (if colorLoc (currentShader s) \<noteq> - 1
      then [GlBindBuffer GL_ARRAY_BUFFER (bufs ! 1),
            GlVertexAttribPointer (colorLoc (currentShader s)) 4 GL_UNSIGNED_BYTE True 0 0,
            GlEnableVertexAttribArray (colorLoc (currentShader s))]
      else [])"

text \<open>One round of the ledger loop of \<^verbatim>\<open>rlglDraw\<close> (rlgl.c 1167): the accumulator is
  \<^verbatim>\<open>indicesOffset\<close> and the calls made so far.\<close>

definition draw_entry ::
  "env \<Rightarrow> DrawCall list \<Rightarrow> nat \<Rightarrow> int \<times> gl_call list \<Rightarrow> (int \<times> gl_call list) result" where
  "draw_entry e ds i acc =
     bindR (rd ds (int i)) (\<lambda>d.
       let indicesOffset = fst acc;
           quadsCount = vertexCount d sdiv 4;
           numIndicesToProcess = quadsCount * 6
       in Inr (indicesOffset + vertexCount d sdiv 4 * 6,
               snd acc @ [GlBindTexture GL_TEXTURE_2D (textureId d),
                          GlDrawElements GL_TRIANGLES numIndicesToProcess (index_type e)
                            (index_size e * indicesOffset)]))"

text \<open>What \<^verbatim>\<open>rlglDraw\<close> binds before the ledger loop (rlgl.c 1140-1163) and unbinds after
  it (rlgl.c 1188-1194).\<close>

definition quads_bind :: "rlgl_state \<Rightarrow> gl_call list" where
  "quads_bind s =
     (if vaoSupported s then [GlBindVertexArray (vaoQuads s)]
      else [GlBindBuffer GL_ARRAY_BUFFER (quadsBuffer s ! 0),
            GlVertexAttribPointer (vertexLoc (currentShader s)) 3 GL_FLOAT False 0 0,
            GlEnableVertexAttribArray (vertexLoc (currentShader s)),
            GlBindBuffer GL_ARRAY_BUFFER (quadsBuffer s ! 1),
            GlVertexAttribPointer (texcoordLoc (currentShader s)) 2 GL_FLOAT False 0 0,
            GlEnableVertexAttribArray (texcoordLoc (currentShader s))] @
           (if colorLoc (currentShader s) \<noteq> - 1
            then [GlBindBuffer GL_ARRAY_BUFFER (quadsBuffer s ! 2),
                  GlVertexAttribPointer (colorLoc (currentShader s)) 4
                    GL_UNSIGNED_BYTE True 0 0,
                  GlEnableVertexAttribArray (colorLoc (currentShader s))]
            else []) @
           [GlBindBuffer GL_ELEMENT_ARRAY_BUFFER (quadsBuffer s ! 3)])"

definition quads_unbind :: "rlgl_state \<Rightarrow> gl_call list" where
  "quads_unbind s =
     (if \<not> vaoSupported s
      then [GlBindBuffer GL_ARRAY_BUFFER 0, GlBindBuffer GL_ELEMENT_ARRAY_BUFFER 0]
      else []) @
     [GlBindTexture GL_TEXTURE_2D 0]"

text \<open>\<^verbatim>\<open>if (quads.vCounter > 0) { ... for (int i = 0; i < drawsCounter; i++) ... }\<close>.\<close>

definition draw_quads :: "env \<Rightarrow> rlgl_state \<Rightarrow> (gl_call list) result" where
  "draw_quads e s =
     (if vCounter (quads s) > 0
      then bindR (forM [0..<nat (drawsCounter s)] (draw_entry e (draws s)) (0, [])) (\<lambda>acc.
             Inr (quads_bind s @ snd acc @ quads_unbind s))
      else Inr [])"

text \<open>The OpenGL calls of \<^verbatim>\<open>rlglDraw\<close> (rlgl.c 1060) up to the reset.\<close>

definition draw_calls :: "env \<Rightarrow> rlgl_state \<Rightarrow> (gl_call list) result" where
  "draw_calls e s =
     bindR (draw_quads e s) (\<lambda>quad_calls.
       Inr (UpdateDefaultBuffers s @
        (if vCounter (lines s) > 0 \<or> vCounter (triangles s) > 0 \<or> vCounter (quads s) > 0
         then [GlUseProgram (shader_id (currentShader s)),
               GlUniformMatrix4fv (mvpLoc (currentShader s)) 1 False
                 (MatrixToFloat (MatrixMultiply e (modelview s) (projection s))),
               GlUniform1i (mapDiffuseLoc (currentShader s)) 0,
               GlUniform4f (tintColorLoc (currentShader s)) 1 1 1 1]
         else []) @
        (if vCounter (lines s) > 0
         then [GlBindTexture GL_TEXTURE_2D (whiteTexture s)] @
              (if vaoSupported s then [GlBindVertexArray (vaoLines s)]
               else bind_position_color s (linesBuffer s)) @
              [GlDrawArrays GL_LINES 0 (vCounter (lines s))] @
              (if \<not> vaoSupported s then [GlBindBuffer GL_ARRAY_BUFFER 0] else []) @
              [GlBindTexture GL_TEXTURE_2D 0]
         else []) @
        (if vCounter (triangles s) > 0
         then [GlBindTexture GL_TEXTURE_2D (whiteTexture s)] @
              (if vaoSupported s then [GlBindVertexArray (vaoTriangles s)]
               else bind_position_color s (trianglesBuffer s)) @
              [GlDrawArrays GL_TRIANGLES 0 (vCounter (triangles s))] @
              (if \<not> vaoSupported s then [GlBindBuffer GL_ARRAY_BUFFER 0] else []) @
              [GlBindTexture GL_TEXTURE_2D 0]
         else []) @
        quad_calls @
        (if vaoSupported s then [GlBindVertexArray 0] else []) @
        [GlUseProgram 0]))"

text \<open>The reset at the end of \<^verbatim>\<open>rlglDraw\<close> (rlgl.c 1201-1218).\<close>

definition reset_batch :: "rlgl_state \<Rightarrow> rlgl_state result" where
  "reset_batch s =
     bindR (wr (draws s) 0 \<lparr>textureId = whiteTexture s, vertexCount = 0\<rparr>) (\<lambda>ds.
       Inr (s\<lparr>drawsCounter := 1,
              draws := ds,
              lines := (lines s)\<lparr>vCounter := 0, cCounter := 0\<rparr>,
              triangles := (triangles s)\<lparr>vCounter := 0, cCounter := 0\<rparr>,
              quads := (quads s)\<lparr>vCounter := 0, tcCounter := 0, cCounter := 0\<rparr>,
              currentDepth := - 1\<rparr>))"

definition rlglDraw :: "env \<Rightarrow> rlgl_state \<Rightarrow> rlgl_state result" where
  "rlglDraw e s =
     bindR (draw_calls e s) (\<lambda>calls.
       reset_batch (s\<lparr>gl_calls := gl_calls s @ calls\<rparr>))"

section \<open>Call sequences\<close>

datatype call =
  Call_rlMatrixMode MatrixMode
  | Call_rlPushMatrix
  | Call_rlPopMatrix
  | Call_rlLoadIdentity
  | Call_rlMultMatrixf Matrix
  | Call_rlBegin DrawMode
  | Call_rlEnd
  | Call_rlVertex3f float float float
  | Call_rlVertex2f float float
  | Call_rlTexCoord2f float float
  | Call_rlColor4ub byte byte byte byte
  | Call_rlEnableTexture GLuint
  | Call_rlglDraw

fun exec :: "env \<Rightarrow> call \<Rightarrow> rlgl_state \<Rightarrow> rlgl_state result" where
  "exec e (Call_rlMatrixMode mode) s = Inr (rlMatrixMode mode s)"
| "exec e Call_rlPushMatrix s = rlPushMatrix e s"
| "exec e Call_rlPopMatrix s = rlPopMatrix s"
| "exec e Call_rlLoadIdentity s = Inr (rlLoadIdentity e s)"
| "exec e (Call_rlMultMatrixf mat) s = Inr (rlMultMatrixf e mat s)"
| "exec e (Call_rlBegin mode) s = Inr (rlBegin mode s)"
| "exec e Call_rlEnd s = rlEnd e s"
| "exec e (Call_rlVertex3f px py pz) s = rlVertex3f e px py pz s"
| "exec e (Call_rlVertex2f px py) s = rlVertex2f e px py s"
| "exec e (Call_rlTexCoord2f tx ty) s = rlTexCoord2f tx ty s"
| "exec e (Call_rlColor4ub r g b a) s = rlColor4ub r g b a s"
| "exec e (Call_rlEnableTexture tid) s = rlEnableTexture tid s"
| "exec e Call_rlglDraw s = rlglDraw e s"

fun run :: "env \<Rightarrow> call list \<Rightarrow> rlgl_state \<Rightarrow> rlgl_state result" where
  "run e [] s = Inr s"
| "run e (c # cs) s = bindR (exec e c s) (run e cs)"

text \<open>A state is reachable when a sequence of calls, none of which faults, leads to it
  from a state \<^verbatim>\<open>rlglInit\<close> leaves.\<close>

inductive reachable :: "env \<Rightarrow> rlgl_state \<Rightarrow> bool" for e :: env where
  reachable_init: "after_rlglInit e s \<Longrightarrow> reachable e s"
| reachable_exec: "reachable e s \<Longrightarrow> exec e c s = Inr s' \<Longrightarrow> reachable e s'"

section \<open>A small configuration\<close>

text \<open>A concrete environment and the state \<^verbatim>\<open>rlglInit\<close> leaves in it, for running the
  functions on explicit inputs: two lines, two triangles and three quads per batch, a
  translation as \<^verbatim>\<open>VectorTransform\<close>.\<close>

definition identity_matrix :: Matrix where
  "identity_matrix =
     \<lparr>m0 = 1, m4 = 0, m8 = 0, m12 = 0,
      m1 = 0, m5 = 1, m9 = 0, m13 = 0,
      m2 = 0, m6 = 0, m10 = 1, m14 = 0,
      m3 = 0, m7 = 0, m11 = 0, m15 = 1\<rparr>"

definition env0 :: env where
  "env0 =
     \<lparr>MAX_LINES_BATCH = 2, MAX_TRIANGLES_BATCH = 2, MAX_QUADS_BATCH = 3,
      MatrixIdentity = identity_matrix,
      MatrixMultiply = (\<lambda>a b. b),
      VectorTransform = (\<lambda>v m. Vector3 (vec_x v + m12 m) (vec_y v + m13 m) (vec_z v + m14 m)),
      depth_increment = (\<lambda>d. d + 1 / 20000),
      graphics_api = GRAPHICS_API_OPENGL_33\<rparr>"

definition shader0 :: Shader where
  "shader0 = \<lparr>shader_id = 3, vertexLoc = 0, texcoordLoc = 1, colorLoc = 3,
              mvpLoc = 0, mapDiffuseLoc = 1, tintColorLoc = 2\<rparr>"

definition state0 :: rlgl_state where
  "state0 =
     \<lparr>stack = replicate 16 identity_matrix,
      stackCounter = 0,
      modelview = identity_matrix,
      projection = identity_matrix,
      currentMatrix = PtrModelview,
      currentMatrixMode = RL_MODELVIEW,
      currentDrawMode = RL_TRIANGLES,
      currentDepth = - 1,
      lines = \<lparr>vCounter = 0, cCounter = 0, vertices = replicate 12 0, colors = replicate 16 0\<rparr>,
      triangles = \<lparr>vCounter = 0, cCounter = 0, vertices = replicate 18 0, colors = replicate 24 0\<rparr>,
      quads = \<lparr>vCounter = 0, cCounter = 0, vertices = replicate 36 0, colors = replicate 48 0,
               tcCounter = 0, texcoords = replicate 24 0,
               indices = [0, 1, 2, 0, 2, 3, 4, 5, 6, 4, 6, 7, 8, 9, 10, 8, 10, 11]\<rparr>,
      vaoLines = 1, vaoTriangles = 2, vaoQuads = 3,
      linesBuffer = [1, 2], trianglesBuffer = [3, 4], quadsBuffer = [5, 6, 7, 8],
      draws = (replicate 256 \<lparr>textureId = 0, vertexCount = 0\<rparr>)
                [0 := \<lparr>textureId = 1, vertexCount = 0\<rparr>],
      drawsCounter = 1,
      tempBuffer = replicate 4096 (Vector3 0 0 0),
      tempBufferCount = 0,
      useTempBuffer = False,
      defaultShader = shader0,
      currentShader = shader0,
      vaoSupported = True,
      whiteTexture = 1,
      stdout_log = [],
      gl_calls = []\<rparr>"

text \<open>The state after \<open>k\<close> \<^verbatim>\<open>rlPushMatrix\<close> calls (\<open>k\<close> at least 1) from \<open>state0\<close>.\<close>

definition pushed :: "int \<Rightarrow> rlgl_state" where
  "pushed k = state0\<lparr>stackCounter := k, useTempBuffer := True\<rparr>"

section \<open>Observations used in the statements\<close>

text \<open>The ledger: the first \<^verbatim>\<open>drawsCounter\<close> entries of \<^verbatim>\<open>draws\<close>, as (texture, vertex
  count) pairs, and the sum of their vertex counts.\<close>

definition ledger :: "rlgl_state \<Rightarrow> (GLuint \<times> int) list" where
  "ledger s = map (\<lambda>d. (textureId d, vertexCount d)) (take (nat (drawsCounter s)) (draws s))"

definition ledger_sum :: "rlgl_state \<Rightarrow> int" where
  "ledger_sum s = sum_list (map vertexCount (take (nat (drawsCounter s)) (draws s)))"




text \<open>Every ledger entry before the current (last) one holds at least one vertex, and
  the current one holds no negative count.\<close>

definition ledger_ok :: "rlgl_state \<Rightarrow> bool" where
  "ledger_ok s \<longleftrightarrow>
     1 \<le> drawsCounter s \<and> drawsCounter s \<le> int (length (draws s))
   \<and> list_all (\<lambda>d. 0 < vertexCount d) (take (nat (drawsCounter s - 1)) (draws s))
   \<and> 0 \<le> vertexCount (draws s ! nat (drawsCounter s - 1))"

text \<open>One textured quad as the drawing layer submits it: a colour, then four
  texture coordinates and vertices.\<close>

definition one_quad :: "call list" where
  "one_quad =
     [Call_rlBegin RL_QUADS, Call_rlColor4ub 255 255 255 255,
      Call_rlTexCoord2f 0 0, Call_rlVertex2f 0 0,
      Call_rlTexCoord2f 0 1, Call_rlVertex2f 0 1,
      Call_rlTexCoord2f 1 1, Call_rlVertex2f 1 1,
      Call_rlTexCoord2f 1 0, Call_rlVertex2f 1 0,
      Call_rlEnd]"

text \<open>The ledger a call sequence leaves, when it returns.\<close>

definition ledger_after :: "env \<Rightarrow> call list \<Rightarrow> rlgl_state \<Rightarrow> ((GLuint \<times> int) list) result" where
  "ledger_after e cs s = bindR (run e cs s) (\<lambda>s'. Inr (ledger s'))"

text \<open>\<open>state0\<close> with (\<open>t\<close>, \<open>n\<close>) as its single ledger entry.\<close>

definition with_entry :: "GLuint \<Rightarrow> int \<Rightarrow> rlgl_state" where
  "with_entry t n = state0\<lparr>draws := (draws state0)[0 := \<lparr>textureId = t, vertexCount = n\<rparr>]\<rparr>"


text \<open>Five vertices for a lines buffer that holds four, and \<open>state0\<close> in lines mode with
  its lines buffer at capacity.\<close>

definition five_line_vertices :: "call list" where
  "five_line_vertices =
     [Call_rlBegin RL_LINES,
      Call_rlVertex3f 1 1 0, Call_rlVertex3f 2 2 0, Call_rlVertex3f 3 3 0, Call_rlVertex3f 4 4 0,
      Call_rlVertex3f 5 5 0]"

definition lines_at_capacity :: rlgl_state where
  "lines_at_capacity =
     state0\<lparr>currentDrawMode := RL_LINES, lines := (lines state0)\<lparr>vCounter := 4\<rparr>\<rparr>"

text \<open>The buffer the active topology selects, field by field, and the \<open>i\<close>-th colour
  (four bytes) and texture coordinate (two floats) of an array.\<close>

definition active_vCounter :: "rlgl_state \<Rightarrow> int" where
  "active_vCounter s =
     (case currentDrawMode s of RL_LINES \<Rightarrow> vCounter (lines s)
        | RL_TRIANGLES \<Rightarrow> vCounter (triangles s) | RL_QUADS \<Rightarrow> vCounter (quads s)
        | RL_DRAWMODE_OTHER \<Rightarrow> 0)"

definition active_cCounter :: "rlgl_state \<Rightarrow> int" where
  "active_cCounter s =
     (case currentDrawMode s of RL_LINES \<Rightarrow> cCounter (lines s)
        | RL_TRIANGLES \<Rightarrow> cCounter (triangles s) | RL_QUADS \<Rightarrow> cCounter (quads s)
        | RL_DRAWMODE_OTHER \<Rightarrow> 0)"

definition active_vertices :: "rlgl_state \<Rightarrow> float list" where
  "active_vertices s =
     (case currentDrawMode s of RL_LINES \<Rightarrow> vertices (lines s)
        | RL_TRIANGLES \<Rightarrow> vertices (triangles s) | RL_QUADS \<Rightarrow> vertices (quads s)
        | RL_DRAWMODE_OTHER \<Rightarrow> [])"

definition active_colors :: "rlgl_state \<Rightarrow> byte list" where
  "active_colors s =
     (case currentDrawMode s of RL_LINES \<Rightarrow> colors (lines s)
        | RL_TRIANGLES \<Rightarrow> colors (triangles s) | RL_QUADS \<Rightarrow> colors (quads s)
        | RL_DRAWMODE_OTHER \<Rightarrow> [])"

definition color_entry :: "byte list \<Rightarrow> nat \<Rightarrow> byte \<times> byte \<times> byte \<times> byte" where
  "color_entry cs i = (cs ! (4 * i), cs ! (4 * i + 1), cs ! (4 * i + 2), cs ! (4 * i + 3))"

definition texcoord_entry :: "float list \<Rightarrow> nat \<Rightarrow> float \<times> float" where
  "texcoord_entry ts i = (ts ! (2 * i), ts ! (2 * i + 1))"

text \<open>Shapes for the reconciliation of \<^verbatim>\<open>rlEnd\<close>: two triangles with a red and a blue
  colour call (the shape is not yet ended); a triangle with no colour call; a quad
  with one colour and one texture coordinate call.\<close>

definition two_triangles :: "call list" where
  "two_triangles =
     [Call_rlBegin RL_TRIANGLES,
      Call_rlColor4ub 255 0 0 255, Call_rlVertex3f 0 0 0,
      Call_rlColor4ub 0 0 255 255, Call_rlVertex3f 1 0 0,
      Call_rlVertex3f 0 1 0, Call_rlVertex3f 2 0 0, Call_rlVertex3f 3 0 0, Call_rlVertex3f 2 1 0]"

definition plain_triangle :: "call list" where
  "plain_triangle =
     [Call_rlBegin RL_TRIANGLES,
      Call_rlVertex3f 0 0 0, Call_rlVertex3f 1 0 0, Call_rlVertex3f 0 1 0, Call_rlEnd]"

definition quad_one_texcoord :: "call list" where
  "quad_one_texcoord =
     [Call_rlBegin RL_QUADS, Call_rlColor4ub 255 255 255 255, Call_rlTexCoord2f 5 7,
      Call_rlVertex3f 0 0 0, Call_rlVertex3f 0 1 0, Call_rlVertex3f 1 1 0, Call_rlVertex3f 1 0 0]"

text \<open>The calls that move vertex data to the GPU or draw.\<close>

fun is_upload_or_draw :: "gl_call \<Rightarrow> bool" where
  "is_upload_or_draw (GlBufferSubData target offset size_bytes data_ptr) = True"
| "is_upload_or_draw (GlDrawArrays mode first cnt) = True"
| "is_upload_or_draw (GlDrawElements mode cnt ty offset) = True"
| "is_upload_or_draw c = False"

text \<open>The quad draws as the specification words them: go through the ledger in order;
  for each entry take \<open>indexCount = (vertexCount / 4) * 6\<close>, issue one indexed draw of
  \<open>indexCount\<close> indices that starts at the running index offset, and advance the offset
  by \<open>indexCount\<close>.  A planned draw is (texture, index count, index offset).\<close>

fun quad_draw_plan :: "(GLuint \<times> int) list \<Rightarrow> int \<Rightarrow> (GLuint \<times> int \<times> int) list" where
  "quad_draw_plan [] offset = []"
| "quad_draw_plan ((tex, n) # rest) offset =
     (let indexCount = (n sdiv 4) * 6
      in (tex, indexCount, offset) # quad_draw_plan rest (offset + indexCount))"

text \<open>The OpenGL calls a planned draw stands for: the entry's texture is bound, then
  one \<^verbatim>\<open>glDrawElements\<close> of \<open>indexCount\<close> indices whose last argument is the index offset in
  bytes: 4 bytes an index with the 32-bit indices of OpenGL 3.3, 2 bytes with the 16-bit
  indices of OpenGL ES 2.\<close>

definition planned_calls :: "graphics_api \<Rightarrow> GLuint \<times> int \<times> int \<Rightarrow> gl_call list" where
  "planned_calls api d =
     (case d of (tex, indexCount, offset) \<Rightarrow>
        [GlBindTexture GL_TEXTURE_2D tex,
         (case api of
            GRAPHICS_API_OPENGL_33 \<Rightarrow>
              GlDrawElements GL_TRIANGLES indexCount GL_UNSIGNED_INT (4 * offset)
          | GRAPHICS_API_OPENGL_ES2 \<Rightarrow>
              GlDrawElements GL_TRIANGLES indexCount GL_UNSIGNED_SHORT (2 * offset))])"

text \<open>The six indices of quad \<open>k\<close> in an index array.\<close>

definition index_sextuple :: "nat list \<Rightarrow> nat \<Rightarrow> nat list" where
  "index_sextuple idx k =
     [idx ! (6 * k), idx ! (6 * k + 1), idx ! (6 * k + 2),
      idx ! (6 * k + 3), idx ! (6 * k + 4), idx ! (6 * k + 5)]"

text \<open>\<open>state0\<close> with three ledger entries filled: twelve quad vertices under textures
  7, 9, 7.\<close>

definition three_runs :: rlgl_state where
  "three_runs =
     state0\<lparr>quads := (quads state0)\<lparr>vCounter := 12, cCounter := 12, tcCounter := 12\<rparr>,
            draws := (draws state0)[0 := \<lparr>textureId = 7, vertexCount = 4\<rparr>,
                                    1 := \<lparr>textureId = 9, vertexCount = 4\<rparr>,
                                    2 := \<lparr>textureId = 7, vertexCount = 4\<rparr>],
            drawsCounter := 3\<rparr>"

fun is_indexed_draw :: "gl_call \<Rightarrow> bool" where
  "is_indexed_draw (GlDrawElements mode cnt ty offset) = True"
| "is_indexed_draw c = False"

text \<open>The staged points of a state after \<^verbatim>\<open>rlEnd\<close>'s transformation by the matrix
  current at that moment, and the \<^verbatim>\<open>rlVertex3f\<close> call that replays a point.\<close>

definition staged_transformed :: "env \<Rightarrow> rlgl_state \<Rightarrow> Vector3 list" where
  "staged_transformed e s =
     map (\<lambda>v. VectorTransform e v (deref_currentMatrix s))
       (take (nat (tempBufferCount s)) (tempBuffer s))"

definition vertex_call :: "Vector3 \<Rightarrow> call" where
  "vertex_call v = Call_rlVertex3f (vec_x v) (vec_y v) (vec_z v)"

text \<open>A line submitted after \<^verbatim>\<open>rlPushMatrix\<close>, with the current matrix then set to a
  translation by (10, 20, 30); and the state these calls lead to from \<open>state0\<close>.\<close>

definition shift_matrix :: Matrix where
  "shift_matrix = identity_matrix\<lparr>m12 := 10, m13 := 20, m14 := 30\<rparr>"

definition staged_calls :: "call list" where
  "staged_calls =
     [Call_rlPushMatrix, Call_rlMultMatrixf shift_matrix, Call_rlBegin RL_LINES,
      Call_rlColor4ub 255 0 0 255, Call_rlVertex3f 1 2 3, Call_rlVertex3f 4 5 6]"

definition staged_state :: rlgl_state where
  "staged_state =
     state0\<lparr>stackCounter := 1, modelview := shift_matrix, currentDrawMode := RL_LINES,
            lines := (lines state0)\<lparr>cCounter := 1,
               colors := (colors (lines state0))[0 := 255, 1 := 0, 2 := 0, 3 := 255]\<rparr>,
            tempBuffer := (tempBuffer state0)[0 := Vector3 1 2 3, 1 := Vector3 4 5 6],
            tempBufferCount := 2, useTempBuffer := True\<rparr>"

text \<open>The ledger invariant of reachable states: the ledger lies inside the array, only
  its last entry may be empty, and its counts add up to the quads buffer's vertex
  count.\<close>

definition ledger_inv :: "rlgl_state \<Rightarrow> bool" where
  "ledger_inv s \<longleftrightarrow> ledger_ok s \<and> ledger_sum s = vCounter (quads s)"

text \<open>Bounds that hold in every reachable state (proved below): each buffer's arrays have
  the lengths \<^verbatim>\<open>LoadDefaultBuffers\<close> allocates for a capacity of \<open>cap\<close> vertices, the vertex
  count lies between 0 and the capacity, and the colour count is not negative.\<close>

definition buffer_ok :: "int \<Rightarrow> 'a VertexPositionColorBuffer_scheme \<Rightarrow> bool" where
  "buffer_ok cap b \<longleftrightarrow>
     length (vertices b) = nat (3 * cap) \<and> length (colors b) = nat (4 * cap)
   \<and> 0 \<le> vCounter b \<and> vCounter b \<le> int (nat cap) \<and> 0 \<le> cCounter b"

text \<open>The same for the whole state, with the texture coordinates of the quads buffer, the
  staging array and the \<^verbatim>\<open>draws\<close> array.\<close>

definition buffers_inv :: "env \<Rightarrow> rlgl_state \<Rightarrow> bool" where
  "buffers_inv e s \<longleftrightarrow>
     buffer_ok (2 * MAX_LINES_BATCH e) (lines s)
   \<and> buffer_ok (3 * MAX_TRIANGLES_BATCH e) (triangles s)
   \<and> buffer_ok (4 * MAX_QUADS_BATCH e) (quads s)
   \<and> length (texcoords (quads s)) = nat (2 * (4 * MAX_QUADS_BATCH e))
   \<and> 0 \<le> tcCounter (quads s)
   \<and> length (tempBuffer s) = nat TEMP_VERTEX_BUFFER_SIZE
   \<and> 0 \<le> tempBufferCount s \<and> tempBufferCount s \<le> TEMP_VERTEX_BUFFER_SIZE
   \<and> length (draws s) = nat MAX_DRAWS_BY_TEXTURE"

text \<open>The \<open>i\<close>-th position (three floats) of a vertex array, the capacity in vertices of
  the buffer the active topology selects, and the message of the \<^verbatim>\<open>else\<close> branch of
  \<^verbatim>\<open>rlVertex3f\<close> for that topology.\<close>

definition vertex_entry :: "float list \<Rightarrow> nat \<Rightarrow> Vector3" where
  "vertex_entry vs i = Vector3 (vs ! (3 * i)) (vs ! (3 * i + 1)) (vs ! (3 * i + 2))"

definition active_capacity :: "env \<Rightarrow> rlgl_state \<Rightarrow> int" where
  "active_capacity e s =
     (case currentDrawMode s of RL_LINES \<Rightarrow> 2 * MAX_LINES_BATCH e
        | RL_TRIANGLES \<Rightarrow> 3 * MAX_TRIANGLES_BATCH e | RL_QUADS \<Rightarrow> 4 * MAX_QUADS_BATCH e
        | RL_DRAWMODE_OTHER \<Rightarrow> 0)"

definition overflow_message :: "DrawMode \<Rightarrow> string" where
  "overflow_message mode =
     (case mode of RL_LINES \<Rightarrow> ''MAX_LINES_BATCH overflow''
        | RL_TRIANGLES \<Rightarrow> ''MAX_TRIANGLES_BATCH overflow''
        | RL_QUADS \<Rightarrow> ''MAX_QUADS_BATCH overflow''
        | RL_DRAWMODE_OTHER \<Rightarrow> [])"

text \<open>Five line vertices staged after \<^verbatim>\<open>rlPushMatrix\<close>, for a lines buffer that holds
  four, and the state these calls lead to from \<open>state0\<close>.\<close>

definition overfull_staged_calls :: "call list" where
  "overfull_staged_calls =
     [Call_rlPushMatrix, Call_rlBegin RL_LINES, Call_rlColor4ub 255 0 0 255,
      Call_rlVertex3f 1 1 0, Call_rlVertex3f 2 2 0, Call_rlVertex3f 3 3 0, Call_rlVertex3f 4 4 0,
      Call_rlVertex3f 5 5 0]"

definition overfull_state :: rlgl_state where
  "overfull_state =
     state0\<lparr>stackCounter := 1, currentDrawMode := RL_LINES,
            lines := (lines state0)\<lparr>cCounter := 1,
               colors := (colors (lines state0))[0 := 255, 1 := 0, 2 := 0, 3 := 255]\<rparr>,
            tempBuffer := (tempBuffer state0)[0 := Vector3 1 1 0, 1 := Vector3 2 2 0,
               2 := Vector3 3 3 0, 3 := Vector3 4 4 0, 4 := Vector3 5 5 0],
            tempBufferCount := 5, useTempBuffer := True\<rparr>"

text \<open>Texture 7, one quad, texture 9, one quad, texture 7 again, one quad.\<close>

definition three_quads :: "call list" where
  "three_quads =
     [Call_rlEnableTexture 7] @ one_quad @ [Call_rlEnableTexture 9] @ one_quad @
     [Call_rlEnableTexture 7] @ one_quad"

text \<open>A configuration with room for 64 quads (256 quad vertices, as many as the ledger has
  entries) and the state \<^verbatim>\<open>rlglInit\<close> leaves in it: \<open>state0\<close> with the quads buffer of
  that size, whose index array is the one the index loop builds.\<close>

definition env64 :: env where
  "env64 = env0\<lparr>MAX_QUADS_BATCH := 64\<rparr>"

definition state64 :: rlgl_state where
  "state64 =
     state0\<lparr>quads := \<lparr>vCounter = 0, cCounter = 0, vertices = replicate 768 0,
                      colors = replicate 1024 0, tcCounter = 0, texcoords = replicate 512 0,
                      indices = (case quad_indices env64 of Inr idx \<Rightarrow> idx | Inl f \<Rightarrow> [])\<rparr>\<rparr>"

text \<open>Calls that fill the ledger: round \<open>i\<close> binds a texture other than the one of round
  \<open>i - 1\<close> (7 and 9 in turn) and submits one vertex, so every round closes one ledger entry
  with a count of 1.  \<open>filled k\<close> describes the state after \<open>k\<close> rounds in quads mode.\<close>

definition fill_handle :: "nat \<Rightarrow> GLuint" where
  "fill_handle i = (if even i then 7 else 9)"

definition fill_round :: "nat \<Rightarrow> call list" where
  "fill_round i = [Call_rlEnableTexture (fill_handle i), Call_rlVertex3f 0 0 0]"

definition ledger_fill :: "nat \<Rightarrow> call list" where
  "ledger_fill n = concat (map fill_round [0..<n])"

definition filled :: "nat \<Rightarrow> rlgl_state \<Rightarrow> bool" where
  "filled k s \<longleftrightarrow>
     currentDrawMode s = RL_QUADS \<and> \<not> useTempBuffer s
   \<and> drawsCounter s = int k \<and> length (draws s) = 256
   \<and> draws s ! (k - 1) = \<lparr>textureId = fill_handle (k - 1), vertexCount = 1\<rparr>
   \<and> vCounter (quads s) = int k \<and> 768 \<le> length (vertices (quads s))"

section \<open>Basic facts\<close>

lemma bindR_Inr [simp]: "bindR (Inr v) f = f v"
  by (simp add: bindR_def)

lemma bindR_Inl [simp]: "bindR (Inl x) f = Inl x"
  by (simp add: bindR_def)

lemma bindR_eq_Inr: "bindR r f = Inr v \<longleftrightarrow> (\<exists>u. r = Inr u \<and> f u = Inr v)"
  by (cases r) auto

lemma rd_eq_Inr: "rd a i = Inr v \<longleftrightarrow> 0 \<le> i \<and> i < int (length a) \<and> v = a ! nat i"
  by (auto simp: rd_def)

lemma wr_eq_Inr: "wr a i v = Inr a' \<longleftrightarrow> 0 \<le> i \<and> i < int (length a) \<and> a' = a[nat i := v]"
  by (auto simp: wr_def)

lemma rd_ok: "0 \<le> i \<Longrightarrow> i < int (length a) \<Longrightarrow> rd a i = Inr (a ! nat i)"
  by (simp add: rd_def)

lemma wr_ok: "0 \<le> i \<Longrightarrow> i < int (length a) \<Longrightarrow> wr a i v = Inr (a[nat i := v])"
  by (simp add: wr_def)

lemma forM_preserves:
  assumes "\<And>i t t'. body i t = Inr t' \<Longrightarrow> P t \<Longrightarrow> P t'"
  shows "forM ns body s = Inr s' \<Longrightarrow> P s \<Longrightarrow> P s'"
proof (induction ns arbitrary: s)
  case Nil
  then show ?case by simp
next
  case (Cons n ns)
  then show ?case using assms by (auto simp: bindR_eq_Inr)
qed

lemma TraceLog_eq_Inr:
  "TraceLog t txt args s = Inr s' \<longleftrightarrow>
     t \<noteq> ERROR \<and> s' = s\<lparr>stdout_log := stdout_log s @ [(t, txt, args)]\<rparr>"
  by (auto simp: TraceLog_def Let_def)

lemma assign_currentMatrix_simps [simp]:
  "stackCounter (assign_currentMatrix m s) = stackCounter s"
  "stack (assign_currentMatrix m s) = stack s"
  "currentMatrixMode (assign_currentMatrix m s) = currentMatrixMode s"
  "useTempBuffer (assign_currentMatrix m s) = useTempBuffer s"
  by (simp_all add: assign_currentMatrix_def split: MatrixPtr.splits)

section \<open>The transform stack\<close>

lemma rlVertex3f_stackCounter:
  "rlVertex3f e px py pz s = Inr s' \<Longrightarrow> stackCounter s' = stackCounter s"
  by (auto simp: rlVertex3f_def store_vertex_def count_quad_vertex_def bindR_eq_Inr
        TraceLog_eq_Inr split: if_splits DrawMode.splits)

lemma reconcile_stackCounter:
  "reconcile s = Inr s' \<Longrightarrow> stackCounter s' = stackCounter s"
  by (auto simp: reconcile_def bindR_eq_Inr split: DrawMode.splits)

lemma flush_temp_stackCounter:
  assumes "flush_temp e s = Inr s'" shows "stackCounter s' = stackCounter s"
proof (cases "useTempBuffer s")
  case False
  with assms show ?thesis by (simp add: flush_temp_def)
next
  case True
  from assms True obtain s1 s3 where
    a: "forM [0..<nat (tempBufferCount s)] (transform_temp e) s = Inr s1" and
    b: "forM [0..<nat (tempBufferCount s1)] (replay_temp e) (s1\<lparr>useTempBuffer := False\<rparr>) = Inr s3" and
    c: "s' = s3\<lparr>tempBufferCount := 0\<rparr>"
    by (auto simp: flush_temp_def bindR_eq_Inr Let_def)
  have "stackCounter s1 = stackCounter s"
    by (rule forM_preserves [where P = "\<lambda>t. stackCounter t = stackCounter s", OF _ a])
       (auto simp: transform_temp_def bindR_eq_Inr wr_eq_Inr)
  moreover have "stackCounter s3 = stackCounter s1"
    by (rule forM_preserves [where P = "\<lambda>t. stackCounter t = stackCounter s1", OF _ b])
       (auto simp: replay_temp_def bindR_eq_Inr dest: rlVertex3f_stackCounter)
  ultimately show ?thesis using c by simp
qed

lemma rlEnd_stackCounter:
  "rlEnd e s = Inr s' \<Longrightarrow> stackCounter s' = stackCounter s"
  by (auto simp: rlEnd_def bindR_eq_Inr dest!: flush_temp_stackCounter reconcile_stackCounter)

lemma rlglDraw_stackCounter:
  "rlglDraw e s = Inr s' \<Longrightarrow> stackCounter s' = stackCounter s"
  by (auto simp: rlglDraw_def reset_batch_def bindR_eq_Inr)

lemma rlColor4ub_stackCounter:
  "rlColor4ub r g b a s = Inr s' \<Longrightarrow> stackCounter s' = stackCounter s"
  by (cases "currentDrawMode s") (auto simp: rlColor4ub_def bindR_eq_Inr)

lemma rlTexCoord2f_stackCounter:
  "rlTexCoord2f tx ty s = Inr s' \<Longrightarrow> stackCounter s' = stackCounter s"
  by (cases "currentDrawMode s = RL_QUADS") (auto simp: rlTexCoord2f_def bindR_eq_Inr)

text \<open>\<^verbatim>\<open>rlEnableTexture\<close>, case by case.\<close>

lemma rlEnableTexture_cases:
  "rlEnableTexture tid s =
     (if 1 \<le> drawsCounter s \<and> drawsCounter s \<le> int (length (draws s))
      then (if textureId (draws s ! nat (drawsCounter s - 1)) = tid then Inr s
            else if vertexCount (draws s ! nat (drawsCounter s - 1)) > 0
            then (if drawsCounter s < int (length (draws s))
                  then Inr (s\<lparr>drawsCounter := drawsCounter s + 1,
                         draws := (draws s)[nat (drawsCounter s) :=
                           (draws s ! nat (drawsCounter s))\<lparr>textureId := tid, vertexCount := 0\<rparr>]\<rparr>)
                  else Inl OutOfBounds)
            else Inr (s\<lparr>draws := (draws s)[nat (drawsCounter s - 1) :=
                           (draws s ! nat (drawsCounter s - 1))\<lparr>textureId := tid, vertexCount := 0\<rparr>]\<rparr>))
      else Inl OutOfBounds)"
proof (cases "1 \<le> drawsCounter s \<and> drawsCounter s \<le> int (length (draws s))")
  case False
  then have "rd (draws s) (drawsCounter s - 1) = Inl OutOfBounds"
    by (auto simp: rd_def)
  with False show ?thesis by (auto simp: rlEnableTexture_def)
next
  case inb: True
  then have r: "rd (draws s) (drawsCounter s - 1) = Inr (draws s ! nat (drawsCounter s - 1))"
    by (simp add: rd_def)
  show ?thesis
  proof (cases "textureId (draws s ! nat (drawsCounter s - 1)) = tid")
    case True
    with inb r show ?thesis by (simp add: rlEnableTexture_def)
  next
    case diff: False
    show ?thesis
    proof (cases "vertexCount (draws s ! nat (drawsCounter s - 1)) > 0")
      case True
      with inb r diff show ?thesis
        by (simp add: rlEnableTexture_def rd_def wr_def)
    next
      case False
      with inb r diff show ?thesis
        by (simp add: rlEnableTexture_def rd_def wr_def)
    qed
  qed
qed

lemma rlEnableTexture_stackCounter:
  "rlEnableTexture tid s = Inr s' \<Longrightarrow> stackCounter s' = stackCounter s"
  by (auto simp: rlEnableTexture_cases split: if_splits)

lemma rlPushMatrix_overflow:
  "stackCounter s = MATRIX_STACK_SIZE - 1 \<Longrightarrow>
   rlPushMatrix e s = Inl (Exited 1 (s\<lparr>stdout_log := stdout_log s @
      [(ERROR, ''Stack Buffer Overflow (MAX %i Matrix)'', [MATRIX_STACK_SIZE])]\<rparr>))"
  by (simp add: rlPushMatrix_def TraceLog_def)

lemma rlPushMatrix_stackCounter:
  assumes "rlPushMatrix e s = Inr s'" shows "stackCounter s' = stackCounter s + 1"
proof (cases "stackCounter s = MATRIX_STACK_SIZE - 1")
  case True
  with assms show ?thesis by (simp add: rlPushMatrix_overflow)
next
  case False
  with assms show ?thesis
    by (cases "currentMatrixMode s = RL_MODELVIEW")
       (auto simp: rlPushMatrix_def bindR_eq_Inr Let_def rlLoadIdentity_def)
qed

lemma rlPopMatrix_stackCounter:
  assumes "rlPopMatrix s = Inr s'" and "0 \<le> stackCounter s" shows "0 \<le> stackCounter s'"
proof (cases "stackCounter s > 0")
  case True
  with assms show ?thesis by (auto simp: rlPopMatrix_def bindR_eq_Inr Let_def)
next
  case False
  with assms show ?thesis by (simp add: rlPopMatrix_def)
qed

lemma exec_stackCounter_nonneg:
  assumes "exec e c s = Inr s'" and "0 \<le> stackCounter s"
  shows "0 \<le> stackCounter s'"
proof (cases c)
  case Call_rlPushMatrix
  with assms show ?thesis by (auto dest: rlPushMatrix_stackCounter)
next
  case Call_rlPopMatrix
  with assms show ?thesis by (auto dest: rlPopMatrix_stackCounter)
next
  case Call_rlEnd
  with assms show ?thesis by (auto dest: rlEnd_stackCounter)
next
  case (Call_rlVertex3f px py pz)
  with assms show ?thesis by (auto dest: rlVertex3f_stackCounter)
next
  case (Call_rlVertex2f px py)
  with assms show ?thesis by (auto simp: rlVertex2f_def dest: rlVertex3f_stackCounter)
next
  case (Call_rlTexCoord2f tx ty)
  with assms show ?thesis by (auto dest: rlTexCoord2f_stackCounter)
next
  case (Call_rlColor4ub r g b a)
  with assms show ?thesis by (auto dest: rlColor4ub_stackCounter)
next
  case (Call_rlEnableTexture tid)
  with assms show ?thesis by (auto dest: rlEnableTexture_stackCounter)
next
  case Call_rlglDraw
  with assms show ?thesis by (auto dest: rlglDraw_stackCounter)
qed (use assms in \<open>auto simp: rlMatrixMode_def rlLoadIdentity_def rlMultMatrixf_def rlBegin_def Let_def\<close>)

lemma reachable_stackCounter_nonneg: "reachable e s \<Longrightarrow> 0 \<le> stackCounter s"
  by (induction rule: reachable.induct)
     (auto simp: after_rlglInit_def dest: exec_stackCounter_nonneg)

lemma quad_indices_env0:
  "quad_indices env0 = Inr [0, 1, 2, 0, 2, 3, 4, 5, 6, 4, 6, 7, 8, 9, 10, 8, 10, 11]"
  by code_simp

lemma after_rlglInit_state0: "after_rlglInit env0 state0"
  by (simp add: after_rlglInit_def quad_indices_env0)
     (simp add: env0_def state0_def MATRIX_STACK_SIZE_def MAX_DRAWS_BY_TEXTURE_def
        TEMP_VERTEX_BUFFER_SIZE_def)

text \<open>
  C10.  In every reachable state the transform stack depth \<^verbatim>\<open>stackCounter\<close> is at least
  0, and \<^verbatim>\<open>rlPopMatrix\<close> on an empty stack (\<^verbatim>\<open>stackCounter == 0\<close>) changes nothing: the
  current matrix, the stack contents and the counter (the whole state) are as before.
\<close>

theorem pop_empty_noop:
  "reachable e s \<Longrightarrow> 0 \<le> stackCounter s \<and> (stackCounter s = 0 \<longrightarrow> rlPopMatrix s = Inr s)"
  by (auto simp: rlPopMatrix_def dest: reachable_stackCounter_nonneg)

theorem pop_empty_noop_witness:
  "reachable env0 state0 \<and> stackCounter state0 = 0 \<and> rlPopMatrix state0 = Inr state0"
proof -
  have r: "reachable env0 state0"
    by (rule reachable_init) (rule after_rlglInit_state0)
  have z: "stackCounter state0 = 0"
    by (simp add: state0_def)
  from pop_empty_noop [OF r] z r show ?thesis by simp
qed

lemma rlPushMatrix_ok:
  assumes "stackCounter s \<noteq> MATRIX_STACK_SIZE - 1" "0 \<le> stackCounter s"
    "stackCounter s < int (length (stack s))"
  shows "rlPushMatrix e s =
     Inr ((assign_currentMatrix (MatrixIdentity e)
            (s\<lparr>stack := (stack s)[nat (stackCounter s) := deref_currentMatrix s]\<rparr>))
          \<lparr>stackCounter := stackCounter s + 1,
           useTempBuffer := (currentMatrixMode s = RL_MODELVIEW \<or> useTempBuffer s)\<rparr>)"
  using assms
  by (cases "currentMatrixMode s = RL_MODELVIEW")
     (simp_all add: rlPushMatrix_def wr_def Let_def rlLoadIdentity_def)

lemma push_state0: "rlPushMatrix env0 state0 = Inr (pushed 1)"
  apply (subst rlPushMatrix_ok)
  apply (simp_all add: pushed_def state0_def MATRIX_STACK_SIZE_def)
  apply (simp add: env0_def assign_currentMatrix_def deref_currentMatrix_def list_update_same_conv)
  done

lemma push_pushed:
  "1 \<le> k \<Longrightarrow> k < 15 \<Longrightarrow> rlPushMatrix env0 (pushed k) = Inr (pushed (k + 1))"
  apply (subst rlPushMatrix_ok)
  apply (simp_all add: pushed_def state0_def MATRIX_STACK_SIZE_def)
  apply (simp add: env0_def assign_currentMatrix_def deref_currentMatrix_def list_update_same_conv)
  done

lemma run_15_pushes:
  "run env0 [Call_rlPushMatrix, Call_rlPushMatrix, Call_rlPushMatrix, Call_rlPushMatrix,
     Call_rlPushMatrix, Call_rlPushMatrix, Call_rlPushMatrix, Call_rlPushMatrix,
     Call_rlPushMatrix, Call_rlPushMatrix, Call_rlPushMatrix, Call_rlPushMatrix,
     Call_rlPushMatrix, Call_rlPushMatrix, Call_rlPushMatrix] state0 = Inr (pushed 15)"
  by (simp add: push_state0 push_pushed)

text \<open>
  C9 (as the code has it).  When \<^verbatim>\<open>rlPushMatrix\<close> is called with
  \<^verbatim>\<open>stackCounter == MATRIX_STACK_SIZE - 1\<close> (the condition the code tests), the overflow
  is logged at \<^verbatim>\<open>ERROR\<close> level and \<^verbatim>\<open>TraceLog\<close> ends the process with \<^verbatim>\<open>exit(1)\<close>:
  the state at exit is the state before the call with the message added, so the
  current matrix is not stored and the counter is not incremented.
\<close>

theorem push_at_limit_exits:
  "stackCounter s = MATRIX_STACK_SIZE - 1 \<Longrightarrow>
   rlPushMatrix e s = Inl (Exited 1 (s\<lparr>stdout_log := stdout_log s @
      [(ERROR, ''Stack Buffer Overflow (MAX %i Matrix)'', [MATRIX_STACK_SIZE])]\<rparr>))"
  by (rule rlPushMatrix_overflow)

theorem push_at_limit_exits_witness:
  "stackCounter (pushed 15) = MATRIX_STACK_SIZE - 1 \<and>
   rlPushMatrix env0 (pushed 15) = Inl (Exited 1 ((pushed 15)\<lparr>stdout_log :=
      [(ERROR, ''Stack Buffer Overflow (MAX %i Matrix)'', [16])]\<rparr>))"
proof -
  have h: "stackCounter (pushed 15) = MATRIX_STACK_SIZE - 1"
    by (simp add: pushed_def MATRIX_STACK_SIZE_def)
  have "stdout_log (pushed 15) = []"
    by (simp add: pushed_def state0_def)
  with push_at_limit_exits [OF h, of env0] h show ?thesis
    by (simp add: MATRIX_STACK_SIZE_def)
qed

text \<open>
  C9 as the specification states it fails: sixteen \<^verbatim>\<open>rlPushMatrix\<close> calls from the
  initial state do not continue past the sixteenth.  The process exits there, with
  \<^verbatim>\<open>stackCounter\<close> still 15.
\<close>

theorem push_overflow_counterexample:
  "run env0 [Call_rlPushMatrix, Call_rlPushMatrix, Call_rlPushMatrix, Call_rlPushMatrix,
     Call_rlPushMatrix, Call_rlPushMatrix, Call_rlPushMatrix, Call_rlPushMatrix,
     Call_rlPushMatrix, Call_rlPushMatrix, Call_rlPushMatrix, Call_rlPushMatrix,
     Call_rlPushMatrix, Call_rlPushMatrix, Call_rlPushMatrix, Call_rlPushMatrix] state0
   = Inl (Exited 1 (state0\<lparr>stackCounter := 15, useTempBuffer := True,
        stdout_log := [(ERROR, ''Stack Buffer Overflow (MAX %i Matrix)'', [16])]\<rparr>))"
  apply (simp add: push_state0 push_pushed)
  apply (simp add: rlPushMatrix_overflow pushed_def MATRIX_STACK_SIZE_def)
  apply (simp add: state0_def)
  done

section \<open>Ledger steps\<close>

lemma drawcall_make: "d\<lparr>textureId := t, vertexCount := n\<rparr> = \<lparr>textureId = t, vertexCount = n\<rparr>"
  by (cases d) simp

lemma sum_list_update_int:
  fixes xs :: "int list"
  shows "k < length xs \<Longrightarrow> sum_list (xs[k := v]) = sum_list xs + v - xs ! k"
  by (induction xs arbitrary: k) (auto split: nat.split)

lemma sum_take_update_in:
  fixes f :: "'a \<Rightarrow> int"
  assumes "i < n" "n \<le> length xs"
  shows "sum_list (map f (take n (xs[i := v]))) = sum_list (map f (take n xs)) - f (xs ! i) + f v"
proof -
  have "map f (take n (xs[i := v])) = (map f (take n xs))[i := f v]"
    by (simp add: take_update_swap map_update)
  moreover have "i < length (map f (take n xs))" using assms by simp
  ultimately have "sum_list (map f (take n (xs[i := v]))) =
      sum_list (map f (take n xs)) + f v - map f (take n xs) ! i"
    by (simp only: sum_list_update_int)
  with assms show ?thesis by simp
qed

lemma sum_take_Suc_update:
  fixes f :: "'a \<Rightarrow> int"
  assumes "n < length xs"
  shows "sum_list (map f (take (Suc n) (xs[n := v]))) = sum_list (map f (take n xs)) + f v"
  using assms by (simp add: take_Suc_conv_app_nth)

lemma ledger_okD:
  assumes "ledger_ok s"
  obtains n where "drawsCounter s = int (Suc n)" "Suc n \<le> length (draws s)"
    "list_all (\<lambda>d. 0 < vertexCount d) (take n (draws s))" "0 \<le> vertexCount (draws s ! n)"
proof -
  from assms have a: "1 \<le> drawsCounter s" "drawsCounter s \<le> int (length (draws s))"
    and b: "list_all (\<lambda>d. 0 < vertexCount d) (take (nat (drawsCounter s - 1)) (draws s))"
    and c: "0 \<le> vertexCount (draws s ! nat (drawsCounter s - 1))"
    by (simp_all add: ledger_ok_def)
  define n where "n = nat (drawsCounter s - 1)"
  have 1: "drawsCounter s = int (Suc n)" using a by (simp add: n_def)
  have 2: "Suc n \<le> length (draws s)" using a by (simp add: n_def)
  show thesis by (rule that [OF 1 2]) (use b c in \<open>simp_all add: n_def\<close>)
qed

lemma enable_step:
  assumes ok: "ledger_ok s" and r: "rlEnableTexture tid s = Inr s'"
  shows "ledger_ok s' \<and> ledger_sum s' = ledger_sum s \<and> quads s' = quads s
       \<and> currentDrawMode s' = currentDrawMode s \<and> useTempBuffer s' = useTempBuffer s"
proof -
  from ok obtain n where n: "drawsCounter s = int (Suc n)" "Suc n \<le> length (draws s)"
    "list_all (\<lambda>d. 0 < vertexCount d) (take n (draws s))" "0 \<le> vertexCount (draws s ! n)"
    by (rule ledger_okD)
  have idx: "nat (drawsCounter s - 1) = n" "nat (drawsCounter s) = Suc n" using n by simp_all
  show ?thesis
  proof (cases "textureId (draws s ! n) = tid")
    case True
    with r n idx have "s' = s" by (simp add: rlEnableTexture_cases)
    with ok show ?thesis by simp
  next
    case diff: False
    show ?thesis
    proof (cases "0 < vertexCount (draws s ! n)")
      case pos: True
      with r n idx diff have lt: "Suc n < length (draws s)"
        by (simp add: rlEnableTexture_cases split: if_splits)
      with r n idx diff pos have s': "s' = s\<lparr>drawsCounter := int (Suc n) + 1,
          draws := (draws s)[Suc n := \<lparr>textureId = tid, vertexCount = 0\<rparr>]\<rparr>"
        by (simp add: rlEnableTexture_cases drawcall_make)
      have "take (Suc n) (draws s) = take n (draws s) @ [draws s ! n]"
        using n by (simp add: take_Suc_conv_app_nth)
      with n(2-4) pos lt have "ledger_ok s'"
        by (simp add: ledger_ok_def s' nat_add_distrib)
      moreover have "ledger_sum s' = ledger_sum s"
        using lt idx sum_take_Suc_update [of "Suc n" "draws s" vertexCount]
        by (simp add: ledger_sum_def s' nat_add_distrib)
      ultimately show ?thesis by (simp add: s')
    next
      case False
      with n have z: "vertexCount (draws s ! n) = 0" by simp
      from r n idx diff False have s': "s' = s\<lparr>draws := (draws s)[n := \<lparr>textureId = tid, vertexCount = 0\<rparr>]\<rparr>"
        by (simp add: rlEnableTexture_cases drawcall_make)
      have "ledger_ok s'" using n(2-4) idx n(1) by (simp add: ledger_ok_def s' del: of_nat_Suc)
      moreover have "ledger_sum s' = ledger_sum s"
        using n(2-4) idx z sum_take_update_in [of n "Suc n" "draws s" vertexCount]
        by (simp add: ledger_sum_def s')
      ultimately show ?thesis by (simp add: s')
    qed
  qed
qed

lemma vertex_quads_Inr:
  assumes "rlVertex3f e px py pz s = Inr s'" "currentDrawMode s = RL_QUADS" "\<not> useTempBuffer s"
  shows "1 \<le> drawsCounter s \<and> drawsCounter s \<le> int (length (draws s))
       \<and> draws s' = (draws s)[nat (drawsCounter s - 1) :=
            (draws s ! nat (drawsCounter s - 1))\<lparr>vertexCount :=
               vertexCount (draws s ! nat (drawsCounter s - 1)) + 1\<rparr>]
       \<and> drawsCounter s' = drawsCounter s
       \<and> vCounter (quads s') = vCounter (quads s) + 1
       \<and> currentDrawMode s' = RL_QUADS \<and> \<not> useTempBuffer s'"
  using assms
  by (auto simp: rlVertex3f_def store_vertex_def count_quad_vertex_def bindR_eq_Inr
        TraceLog_eq_Inr rd_eq_Inr wr_eq_Inr split: if_splits)

lemma vertex_step:
  assumes ok: "ledger_ok s" and r: "rlVertex3f e px py pz s = Inr s'"
    and m: "currentDrawMode s = RL_QUADS" "\<not> useTempBuffer s"
  shows "ledger_ok s' \<and> ledger_sum s' = ledger_sum s + 1
       \<and> vCounter (quads s') = vCounter (quads s) + 1
       \<and> currentDrawMode s' = RL_QUADS \<and> \<not> useTempBuffer s'"
proof -
  from ok obtain n where n: "drawsCounter s = int (Suc n)" "Suc n \<le> length (draws s)"
    "list_all (\<lambda>d. 0 < vertexCount d) (take n (draws s))" "0 \<le> vertexCount (draws s ! n)"
    by (rule ledger_okD)
  have idx: "nat (drawsCounter s - 1) = n" "nat (drawsCounter s) = Suc n" using n by simp_all
  from vertex_quads_Inr [OF r m] idx
  have d: "draws s' = (draws s)[n := (draws s ! n)\<lparr>vertexCount := vertexCount (draws s ! n) + 1\<rparr>]"
    and c: "drawsCounter s' = drawsCounter s"
    and rest: "vCounter (quads s') = vCounter (quads s) + 1" "currentDrawMode s' = RL_QUADS"
      "\<not> useTempBuffer s'"
    by simp_all
  have "ledger_ok s'" using n(2-4) idx n(1) by (simp add: ledger_ok_def d c del: of_nat_Suc)
  moreover have "ledger_sum s' = ledger_sum s + 1"
    using n(2-4) idx sum_take_update_in [of n "Suc n" "draws s" vertexCount]
    by (simp add: ledger_sum_def d c)
  ultimately show ?thesis using rest by simp
qed



lemma upt_numeral_right:
  "[i..<numeral n] = (if i < numeral n then i # [i + 1..<numeral n] else [])"
  using upt_rec [of i "numeral n"] by simp

lemma take_as_nth: "n \<le> length xs \<Longrightarrow> take n xs = map ((!) xs) [0..<n]"
  by (simp add: list_eq_iff_nth_eq)

lemma ledger_nth:
  "nat (drawsCounter s) \<le> length (draws s) \<Longrightarrow>
   ledger s = map (\<lambda>i. (textureId (draws s ! i), vertexCount (draws s ! i))) [0..<nat (drawsCounter s)]"
  by (simp add: ledger_def take_as_nth)

lemmas run_defs =
  ledger_after_def one_quad_def
  rlBegin_def rlColor4ub_def store_color_def wr_def rd_def rlTexCoord2f_def rlVertex2f_def
  rlVertex3f_def store_vertex_def count_quad_vertex_def rlEnd_def flush_temp_def reconcile_def
  add_colors_def repeat_color_def copy_elem_def add_texcoords_def zero_texcoord_def
  rlEnableTexture_def Let_def TraceLog_def signed_divide_int_def
  upt_numeral_right numeral_2_eq_2 [symmetric]

lemma three_quads_ledger:
  "ledger_after env0
     ([Call_rlEnableTexture 7] @ one_quad @ [Call_rlEnableTexture 9] @ one_quad @
      [Call_rlEnableTexture 7] @ one_quad) state0 = Inr [(7, 4), (9, 4), (7, 4)]"
  by (simp add: state0_def env0_def run_defs ledger_nth)

text \<open>\<^verbatim>\<open>rlEnableTexture\<close> on a ledger with a free slot: the same handle changes nothing, a new
  handle appends (handle, 0) after a non-empty current entry and overwrites an empty
  one.\<close>

lemma rlEnableTexture_ledger:
  assumes "1 \<le> drawsCounter s" and "drawsCounter s \<le> int (length (draws s))"
    and "0 \<le> vertexCount (draws s ! nat (drawsCounter s - 1))"
  shows
    "(textureId (draws s ! nat (drawsCounter s - 1)) = tid \<longrightarrow> rlEnableTexture tid s = Inr s)
   \<and> (textureId (draws s ! nat (drawsCounter s - 1)) \<noteq> tid
        \<and> vertexCount (draws s ! nat (drawsCounter s - 1)) \<noteq> 0
        \<and> drawsCounter s < int (length (draws s)) \<longrightarrow>
        (\<exists>s'. rlEnableTexture tid s = Inr s'
           \<and> s' = s\<lparr>drawsCounter := drawsCounter s + 1,
                    draws := (draws s)[nat (drawsCounter s) := \<lparr>textureId = tid, vertexCount = 0\<rparr>]\<rparr>
           \<and> ledger s' = ledger s @ [(tid, 0)]))
   \<and> (textureId (draws s ! nat (drawsCounter s - 1)) \<noteq> tid
        \<and> vertexCount (draws s ! nat (drawsCounter s - 1)) = 0 \<longrightarrow>
        (\<exists>s'. rlEnableTexture tid s = Inr s'
           \<and> s' = s\<lparr>draws := (draws s)[nat (drawsCounter s - 1) := \<lparr>textureId = tid, vertexCount = 0\<rparr>]\<rparr>
           \<and> ledger s' = butlast (ledger s) @ [(tid, 0)]))
   \<and> ledger_after env0
        ([Call_rlEnableTexture 7] @ one_quad @ [Call_rlEnableTexture 9] @ one_quad @
         [Call_rlEnableTexture 7] @ one_quad) state0 = Inr [(7, 4), (9, 4), (7, 4)]"
proof -
  define n where "n = nat (drawsCounter s - 1)"
  have idx: "nat (drawsCounter s - 1) = n" "nat (drawsCounter s) = Suc n" "Suc n \<le> length (draws s)"
    using assms by (simp_all add: n_def)
  have same: "textureId (draws s ! n) = tid \<Longrightarrow> rlEnableTexture tid s = Inr s"
    using assms idx by (simp add: rlEnableTexture_cases)
  have app: "rlEnableTexture tid s = Inr (s\<lparr>drawsCounter := drawsCounter s + 1,
        draws := (draws s)[Suc n := \<lparr>textureId = tid, vertexCount = 0\<rparr>]\<rparr>)"
    if "textureId (draws s ! n) \<noteq> tid" "vertexCount (draws s ! n) \<noteq> 0"
       "drawsCounter s < int (length (draws s))"
    using that assms idx by (simp add: rlEnableTexture_cases drawcall_make)
  have app_ledger: "ledger (s\<lparr>drawsCounter := drawsCounter s + 1,
        draws := (draws s)[Suc n := \<lparr>textureId = tid, vertexCount = 0\<rparr>]\<rparr>) = ledger s @ [(tid, 0)]"
    if "drawsCounter s < int (length (draws s))"
  proof -
    from that idx have "Suc n < length (draws s)" by linarith
    then show ?thesis using idx
      by (simp add: ledger_def nat_add_distrib take_Suc_conv_app_nth [of "Suc n"])
  qed
  have reuse: "rlEnableTexture tid s = Inr (s\<lparr>draws := (draws s)[n := \<lparr>textureId = tid, vertexCount = 0\<rparr>]\<rparr>)"
    if "textureId (draws s ! n) \<noteq> tid" "vertexCount (draws s ! n) = 0"
    using that assms idx by (simp add: rlEnableTexture_cases drawcall_make)
  have reuse_ledger: "ledger (s\<lparr>draws := (draws s)[n := \<lparr>textureId = tid, vertexCount = 0\<rparr>]\<rparr>)
      = butlast (ledger s) @ [(tid, 0)]"
    using idx by (simp add: ledger_def take_Suc_conv_app_nth [of n] map_butlast [symmetric])
  show ?thesis
    using same app app_ledger reuse reuse_ledger three_quads_ledger
    unfolding idx by simp
qed

lemma rlEnableTexture_ledger_example:
  "rlEnableTexture 7 (with_entry 7 4) = Inr (with_entry 7 4)
   \<and> rlEnableTexture 9 (with_entry 7 4) =
       Inr ((with_entry 7 4)\<lparr>drawsCounter := 2,
              draws := (draws (with_entry 7 4))[1 := \<lparr>textureId = 9, vertexCount = 0\<rparr>]\<rparr>)
   \<and> ledger ((with_entry 7 4)\<lparr>drawsCounter := 2,
              draws := (draws (with_entry 7 4))[1 := \<lparr>textureId = 9, vertexCount = 0\<rparr>]\<rparr>)
       = [(7, 4), (9, 0)]
   \<and> rlEnableTexture 9 (with_entry 7 0) = Inr (with_entry 9 0)"
proof -
  have a: "1 \<le> drawsCounter (with_entry 7 4)"
    "drawsCounter (with_entry 7 4) \<le> int (length (draws (with_entry 7 4)))"
    "0 \<le> vertexCount (draws (with_entry 7 4) ! nat (drawsCounter (with_entry 7 4) - 1))"
    by (simp_all add: with_entry_def state0_def)
  have b: "1 \<le> drawsCounter (with_entry 7 0)"
    "drawsCounter (with_entry 7 0) \<le> int (length (draws (with_entry 7 0)))"
    "0 \<le> vertexCount (draws (with_entry 7 0) ! nat (drawsCounter (with_entry 7 0) - 1))"
    by (simp_all add: with_entry_def state0_def)
  have l: "ledger (with_entry 7 4) = [(7, 4)]"
    by (simp add: ledger_nth with_entry_def state0_def)
  from rlEnableTexture_ledger [OF a, of 7]
  have 1: "rlEnableTexture 7 (with_entry 7 4) = Inr (with_entry 7 4)"
    by (simp add: with_entry_def state0_def)
  from rlEnableTexture_ledger [OF a, of 9] l
  have 2: "rlEnableTexture 9 (with_entry 7 4) =
       Inr ((with_entry 7 4)\<lparr>drawsCounter := 2,
              draws := (draws (with_entry 7 4))[1 := \<lparr>textureId = 9, vertexCount = 0\<rparr>]\<rparr>)
     \<and> ledger ((with_entry 7 4)\<lparr>drawsCounter := 2,
              draws := (draws (with_entry 7 4))[1 := \<lparr>textureId = 9, vertexCount = 0\<rparr>]\<rparr>)
       = [(7, 4), (9, 0)]"
    by (simp add: with_entry_def state0_def)
  from rlEnableTexture_ledger [OF b, of 9]
  have 3: "rlEnableTexture 9 (with_entry 7 0) = Inr (with_entry 9 0)"
    by (simp add: with_entry_def state0_def)
  from 1 2 3 show ?thesis by simp
qed

section \<open>Capacity\<close>

lemma sdiv_twice [simp]: "(2 * m) sdiv 2 = (m :: int)"
  by (simp add: signed_divide_int_def sgn_mult abs_mult mult_sgn_abs)

lemma sdiv_thrice [simp]: "(3 * m) sdiv 3 = (m :: int)"
  by (simp add: signed_divide_int_def sgn_mult abs_mult mult_sgn_abs)

lemma sdiv_four_times [simp]: "(4 * m) sdiv 4 = (m :: int)"
  by (simp add: signed_divide_int_def sgn_mult abs_mult mult_sgn_abs)

text \<open>\<^verbatim>\<open>rlEnableTexture\<close> has no \<^verbatim>\<open>MAX_DRAWS_BY_TEXTURE\<close> check: on a full ledger whose
  current entry is not empty, a new handle is stored past the end of \<^verbatim>\<open>draws\<close>.\<close>

lemma enable_texture_full_ledger:
  assumes "1 \<le> drawsCounter s" and "drawsCounter s = int (length (draws s))"
    and "textureId (draws s ! nat (drawsCounter s - 1)) \<noteq> tid"
    and "0 < vertexCount (draws s ! nat (drawsCounter s - 1))"
  shows "rlEnableTexture tid s = Inl OutOfBounds"
  using assms by (simp add: rlEnableTexture_cases)

text \<open>
  C6 (as the code has it).  With no deferred staging, a vertex submitted to a topology
  whose buffer holds its full capacity (\<^verbatim>\<open>2*MAX_LINES_BATCH\<close>, \<^verbatim>\<open>3*MAX_TRIANGLES_BATCH\<close>
  or \<^verbatim>\<open>4*MAX_QUADS_BATCH\<close> vertices) is not stored: no buffer, counter or ledger entry
  changes, so exactly capacity vertices are retained and nothing is written outside
  the buffer.  The overflow is logged at \<^verbatim>\<open>ERROR\<close> level, and \<^verbatim>\<open>TraceLog\<close> then ends
  the process with \<^verbatim>\<open>exit(1)\<close>.
\<close>

theorem vertex_at_capacity_exits:
  assumes "\<not> useTempBuffer s"
  shows
    "(currentDrawMode s = RL_LINES \<and> vCounter (lines s) = 2 * MAX_LINES_BATCH e \<longrightarrow>
        rlVertex3f e px py pz s = Inl (Exited 1 (s\<lparr>stdout_log := stdout_log s @
          [(ERROR, ''MAX_LINES_BATCH overflow'', [])]\<rparr>)))
   \<and> (currentDrawMode s = RL_TRIANGLES \<and> vCounter (triangles s) = 3 * MAX_TRIANGLES_BATCH e \<longrightarrow>
        rlVertex3f e px py pz s = Inl (Exited 1 (s\<lparr>stdout_log := stdout_log s @
          [(ERROR, ''MAX_TRIANGLES_BATCH overflow'', [])]\<rparr>)))
   \<and> (currentDrawMode s = RL_QUADS \<and> vCounter (quads s) = 4 * MAX_QUADS_BATCH e \<longrightarrow>
        rlVertex3f e px py pz s = Inl (Exited 1 (s\<lparr>stdout_log := stdout_log s @
          [(ERROR, ''MAX_QUADS_BATCH overflow'', [])]\<rparr>)))"
  using assms by (simp add: rlVertex3f_def TraceLog_def)

theorem vertex_at_capacity_exits_witness:
  "\<not> useTempBuffer lines_at_capacity
   \<and> currentDrawMode lines_at_capacity = RL_LINES
   \<and> vCounter (lines lines_at_capacity) = 2 * MAX_LINES_BATCH env0
   \<and> rlVertex3f env0 5 5 0 lines_at_capacity =
       Inl (Exited 1 (lines_at_capacity\<lparr>stdout_log :=
          [(ERROR, ''MAX_LINES_BATCH overflow'', [])]\<rparr>))"
proof -
  have h: "\<not> useTempBuffer lines_at_capacity"
    by (simp add: lines_at_capacity_def state0_def)
  have p: "currentDrawMode lines_at_capacity = RL_LINES"
    "vCounter (lines lines_at_capacity) = 2 * MAX_LINES_BATCH env0"
    "stdout_log lines_at_capacity = []"
    by (simp_all add: lines_at_capacity_def state0_def env0_def)
  from vertex_at_capacity_exits [OF h, of env0 5 5 0] h p show ?thesis by simp
qed

text \<open>
  C6 as the specification states it fails: the fifth vertex sent to a lines buffer that
  holds four is not dropped with a warning.  The message has level \<^verbatim>\<open>ERROR\<close> and the
  process exits with status 1 (four vertices retained).
\<close>

theorem capacity_overflow_counterexample:
  "(case run env0 five_line_vertices state0 of
      Inl (Exited code t) \<Rightarrow>
        code = 1 \<and> vCounter (lines t) = 4
        \<and> stdout_log t = [(ERROR, ''MAX_LINES_BATCH overflow'', [])]
    | Inl OutOfBounds \<Rightarrow> False
    | Inr t \<Rightarrow> False)"
  by (simp add: five_line_vertices_def state0_def env0_def run_defs)

section \<open>Attribute reconciliation at rlEnd\<close>

lemma repeat_color_ok:
  assumes "cCounter b = int c" "1 \<le> c" "4 * c + 3 < length (colors b)"
  shows "repeat_color b =
     Inr (b\<lparr>colors := (colors b)[4 * c := colors b ! (4 * c - 4),
                                  4 * c + 1 := colors b ! (4 * c - 3),
                                  4 * c + 2 := colors b ! (4 * c - 2),
                                  4 * c + 3 := colors b ! (4 * c - 1)],
            cCounter := int c + 1\<rparr>)"
proof -
  have n: "nat (4 * int c) = 4 * c" "nat (4 * int c + 1) = 4 * c + 1"
    "nat (4 * int c + 2) = 4 * c + 2" "nat (4 * int c + 3) = 4 * c + 3"
    "nat (4 * int c - 4) = 4 * c - 4" "nat (4 * int c - 3) = 4 * c - 3"
    "nat (4 * int c - 2) = 4 * c - 2" "nat (4 * int c - 1) = 4 * c - 1"
    using assms(2) by simp_all
  show ?thesis using assms
    by (simp add: repeat_color_def copy_elem_def rd_def wr_def n)
qed

lemma repeat_color_loop:
  assumes "cCounter b = int c" "1 \<le> c" "4 * (c + length ns) \<le> length (colors b)"
  shows "\<exists>b'. forM ns (\<lambda>i. repeat_color) b = Inr b'
       \<and> cCounter b' = int (c + length ns) \<and> vCounter b' = vCounter b \<and> vertices b' = vertices b
       \<and> VertexPositionColorBuffer.more b' = VertexPositionColorBuffer.more b
       \<and> length (colors b') = length (colors b)
       \<and> (\<forall>j < 4 * c. colors b' ! j = colors b ! j)
       \<and> (\<forall>i. c \<le> i \<and> i < c + length ns \<longrightarrow>
              color_entry (colors b') i = color_entry (colors b) (c - 1))"
  using assms
proof (induction ns arbitrary: b c)
  case Nil
  then show ?case by auto
next
  case (Cons m ns)
  let ?b1 = "b\<lparr>colors := (colors b)[4 * c := colors b ! (4 * c - 4),
                                  4 * c + 1 := colors b ! (4 * c - 3),
                                  4 * c + 2 := colors b ! (4 * c - 2),
                                  4 * c + 3 := colors b ! (4 * c - 1)],
            cCounter := int c + 1\<rparr>"
  have step: "repeat_color b = Inr ?b1"
    using Cons.prems by (intro repeat_color_ok) simp_all
  have "cCounter ?b1 = int (Suc c)" "1 \<le> Suc c" "4 * (Suc c + length ns) \<le> length (colors ?b1)"
    using Cons.prems by simp_all
  from Cons.IH [OF this] obtain b' where
    b': "forM ns (\<lambda>i. repeat_color) ?b1 = Inr b'"
      "cCounter b' = int (Suc c + length ns)" "vCounter b' = vCounter ?b1"
      "vertices b' = vertices ?b1"
      "VertexPositionColorBuffer.more b' = VertexPositionColorBuffer.more ?b1"
      "length (colors b') = length (colors ?b1)"
      "\<forall>j < 4 * Suc c. colors b' ! j = colors ?b1 ! j"
      "\<forall>i. Suc c \<le> i \<and> i < Suc c + length ns \<longrightarrow>
           color_entry (colors b') i = color_entry (colors ?b1) (Suc c - 1)"
    by blast
  have run: "forM (m # ns) (\<lambda>i. repeat_color) b = Inr b'"
    using step b'(1) by simp
  have c1: "color_entry (colors ?b1) c = color_entry (colors b) (c - 1)"
    using Cons.prems by (cases c) (simp_all add: color_entry_def nth_list_update add.commute)
  have low: "\<forall>j < 4 * c. colors b' ! j = colors b ! j"
    using b'(7) Cons.prems by (simp add: nth_list_update)
  have atc: "color_entry (colors b') c = color_entry (colors ?b1) c"
    using b'(7) by (simp add: color_entry_def)
  have hi: "\<forall>i. c \<le> i \<and> i < c + length (m # ns) \<longrightarrow>
      color_entry (colors b') i = color_entry (colors b) (c - 1)"
  proof (intro allI impI)
    fix i assume i: "c \<le> i \<and> i < c + length (m # ns)"
    show "color_entry (colors b') i = color_entry (colors b) (c - 1)"
    proof (cases "i = c")
      case True
      with atc c1 show ?thesis by simp
    next
      case False
      with i have "Suc c \<le> i \<and> i < Suc c + length ns" by simp
      with b'(8) c1 show ?thesis by simp
    qed
  qed
  from run b'(2-6) low hi show ?case by (intro exI [of _ b']) simp
qed


lemma zero_texcoord_ok:
  assumes "tcCounter q = int t" "2 * t + 1 < length (texcoords q)"
  shows "zero_texcoord q =
     Inr (q\<lparr>texcoords := (texcoords q)[2 * t := 0, 2 * t + 1 := 0], tcCounter := int t + 1\<rparr>)"
proof -
  have n: "nat (2 * int t) = 2 * t" "nat (2 * int t + 1) = 2 * t + 1" by simp_all
  show ?thesis using assms by (simp add: zero_texcoord_def wr_def n)
qed

lemma zero_texcoord_loop:
  assumes "tcCounter q = int t" "2 * (t + length ns) \<le> length (texcoords q)"
  shows "\<exists>q'. forM ns (\<lambda>i. zero_texcoord) q = Inr q'
       \<and> tcCounter q' = int (t + length ns) \<and> vCounter q' = vCounter q
       \<and> cCounter q' = cCounter q \<and> vertices q' = vertices q \<and> colors q' = colors q
       \<and> indices q' = indices q
       \<and> length (texcoords q') = length (texcoords q)
       \<and> (\<forall>j < 2 * t. texcoords q' ! j = texcoords q ! j)
       \<and> (\<forall>i. t \<le> i \<and> i < t + length ns \<longrightarrow> texcoord_entry (texcoords q') i = (0, 0))"
  using assms
proof (induction ns arbitrary: q t)
  case Nil
  then show ?case by auto
next
  case (Cons m ns)
  let ?q1 = "q\<lparr>texcoords := (texcoords q)[2 * t := 0, 2 * t + 1 := 0], tcCounter := int t + 1\<rparr>"
  have step: "zero_texcoord q = Inr ?q1"
    using Cons.prems by (intro zero_texcoord_ok) simp_all
  have "tcCounter ?q1 = int (Suc t)" "2 * (Suc t + length ns) \<le> length (texcoords ?q1)"
    using Cons.prems by simp_all
  from Cons.IH [OF this] obtain q' where
    q': "forM ns (\<lambda>i. zero_texcoord) ?q1 = Inr q'"
      "tcCounter q' = int (Suc t + length ns)" "vCounter q' = vCounter ?q1"
      "cCounter q' = cCounter ?q1" "vertices q' = vertices ?q1" "colors q' = colors ?q1"
      "indices q' = indices ?q1"
      "length (texcoords q') = length (texcoords ?q1)"
      "\<forall>j < 2 * Suc t. texcoords q' ! j = texcoords ?q1 ! j"
      "\<forall>i. Suc t \<le> i \<and> i < Suc t + length ns \<longrightarrow> texcoord_entry (texcoords q') i = (0, 0)"
    by blast
  have run: "forM (m # ns) (\<lambda>i. zero_texcoord) q = Inr q'"
    using step q'(1) by simp
  have low: "\<forall>j < 2 * t. texcoords q' ! j = texcoords q ! j"
    using q'(9) Cons.prems by (simp add: nth_list_update)
  have att: "texcoord_entry (texcoords q') t = (0, 0)"
    using q'(9) Cons.prems by (simp add: texcoord_entry_def nth_list_update)
  have hi: "\<forall>i. t \<le> i \<and> i < t + length (m # ns) \<longrightarrow> texcoord_entry (texcoords q') i = (0, 0)"
  proof (intro allI impI)
    fix i assume i: "t \<le> i \<and> i < t + length (m # ns)"
    show "texcoord_entry (texcoords q') i = (0, 0)"
    proof (cases "i = t")
      case True
      with att show ?thesis by simp
    next
      case False
      with i have "Suc t \<le> i \<and> i < Suc t + length ns" by simp
      with q'(10) show ?thesis by simp
    qed
  qed
  from run q'(2-8) low hi show ?case by (intro exI [of _ q']) simp
qed

lemma add_colors_noop: "vCounter b \<le> cCounter b \<Longrightarrow> add_colors b = Inr b"
  by (simp add: add_colors_def)

lemma add_colors_fill:
  assumes "cCounter b = int c" "vCounter b = int v" "1 \<le> c" "c < v"
    "4 * v \<le> length (colors b)"
  shows "\<exists>b'. add_colors b = Inr b'
       \<and> cCounter b' = int v \<and> vCounter b' = int v \<and> vertices b' = vertices b
       \<and> VertexPositionColorBuffer.more b' = VertexPositionColorBuffer.more b
       \<and> length (colors b') = length (colors b)
       \<and> (\<forall>j < 4 * c. colors b' ! j = colors b ! j)
       \<and> (\<forall>i. c \<le> i \<and> i < v \<longrightarrow> color_entry (colors b') i = color_entry (colors b) (c - 1))"
proof -
  have len: "length [0..<nat (vCounter b - cCounter b)] = v - c" using assms by simp
  have "4 * (c + length [0..<nat (vCounter b - cCounter b)]) \<le> length (colors b)"
    using assms len by simp
  from repeat_color_loop [OF assms(1) assms(3) this] len assms
  show ?thesis by (simp add: add_colors_def)
qed

lemma add_texcoords_noop: "vCounter q \<le> tcCounter q \<Longrightarrow> add_texcoords q = Inr q"
  by (simp add: add_texcoords_def)

lemma add_texcoords_fill:
  assumes "tcCounter q = int t" "vCounter q = int v" "t < v" "2 * v \<le> length (texcoords q)"
  shows "\<exists>q'. add_texcoords q = Inr q'
       \<and> tcCounter q' = int v \<and> vCounter q' = int v
       \<and> cCounter q' = cCounter q \<and> vertices q' = vertices q \<and> colors q' = colors q
       \<and> indices q' = indices q
       \<and> length (texcoords q') = length (texcoords q)
       \<and> (\<forall>j < 2 * t. texcoords q' ! j = texcoords q ! j)
       \<and> (\<forall>i. t \<le> i \<and> i < v \<longrightarrow> texcoord_entry (texcoords q') i = (0, 0))"
proof -
  have len: "length [0..<nat (vCounter q - tcCounter q)] = v - t" using assms by simp
  have "2 * (t + length [0..<nat (vCounter q - tcCounter q)]) \<le> length (texcoords q)"
    using assms len by simp
  from zero_texcoord_loop [OF assms(1) this] len assms
  show ?thesis by (simp add: add_texcoords_def)
qed


lemma quads_more_eq:
  fixes a b :: VertexPositionColorTextureIndexBuffer
  assumes "VertexPositionColorBuffer.more a = VertexPositionColorBuffer.more b"
  shows "tcCounter a = tcCounter b" "texcoords a = texcoords b" "indices a = indices b"
  using assms by (cases a, cases b, simp)+

lemma add_texcoords_total:
  assumes "0 \<le> tcCounter q" "0 \<le> vCounter q" "2 * vCounter q \<le> int (length (texcoords q))"
  shows "\<exists>q'. add_texcoords q = Inr q' \<and> vCounter q' = vCounter q \<and> cCounter q' = cCounter q
       \<and> vertices q' = vertices q \<and> colors q' = colors q"
proof (cases "vCounter q \<le> tcCounter q")
  case True
  then show ?thesis by (simp add: add_texcoords_noop)
next
  case False
  with assms have "tcCounter q = int (nat (tcCounter q))" "vCounter q = int (nat (vCounter q))"
    "nat (tcCounter q) < nat (vCounter q)" "2 * nat (vCounter q) \<le> length (texcoords q)"
    by simp_all
  from add_texcoords_fill [OF this] assms show ?thesis by auto
qed

lemma color_entry_cong:
  "\<forall>j < 4 * c. cs' ! j = cs ! j \<Longrightarrow> i < c \<Longrightarrow> color_entry cs' i = color_entry cs i"
  by (simp add: color_entry_def)

text \<open>The colour loop of \<^verbatim>\<open>rlEnd\<close> when at least one colour is stored in the buffer
  (\<open>1 \<le> base + M\<close>): the active buffer holds \<open>base + N\<close> vertices and \<open>base + M\<close>
  colours with \<open>M < N\<close>; afterwards the colour count is \<open>base + N\<close>, the entries
  \<open>base + M .. base + N - 1\<close> equal entry \<open>base + M - 1\<close>, and the earlier entries and the
  positions are unchanged.\<close>

lemma rlEnd_repeats_last_color:
  assumes st: "flush_temp e s = Inr s1"
    and mode: "currentDrawMode s1 \<noteq> RL_DRAWMODE_OTHER"
    and c: "active_cCounter s1 = int (base + M)"
    and v: "active_vCounter s1 = int (base + N)"
    and lt: "M < N" and pos: "1 \<le> base + M"
    and len: "4 * (base + N) \<le> length (active_colors s1)"
    and tex: "currentDrawMode s1 = RL_QUADS \<longrightarrow>
        0 \<le> tcCounter (quads s1) \<and> 2 * (base + N) \<le> length (texcoords (quads s1))"
  shows "\<exists>s'. rlEnd e s = Inr s'
     \<and> currentDrawMode s' = currentDrawMode s1
     \<and> active_cCounter s' = int (base + N)
     \<and> active_vCounter s' = int (base + N)
     \<and> active_vertices s' = active_vertices s1
     \<and> (\<forall>i. base + M \<le> i \<and> i < base + N \<longrightarrow>
           color_entry (active_colors s') i = color_entry (active_colors s1) (base + M - 1))
     \<and> (\<forall>i < base + M. color_entry (active_colors s') i = color_entry (active_colors s1) i)"
proof (cases "currentDrawMode s1")
  case RL_LINES
  with c v len have "cCounter (lines s1) = int (base + M)" "vCounter (lines s1) = int (base + N)"
    "4 * (base + N) \<le> length (colors (lines s1))"
    by (simp_all add: active_cCounter_def active_vCounter_def active_colors_def)
  from add_colors_fill [OF this(1,2) pos _ this(3)] lt obtain b' where
    b': "add_colors (lines s1) = Inr b'" "cCounter b' = int (base + N)" "vCounter b' = int (base + N)"
      "vertices b' = vertices (lines s1)"
      "\<forall>j < 4 * (base + M). colors b' ! j = colors (lines s1) ! j"
      "\<forall>i. base + M \<le> i \<and> i < base + N \<longrightarrow>
          color_entry (colors b') i = color_entry (colors (lines s1)) (base + M - 1)"
    by auto
  have "rlEnd e s = Inr (s1\<lparr>lines := b', currentDepth := depth_increment e (currentDepth s1)\<rparr>)"
    using st RL_LINES b'(1) by (simp add: rlEnd_def reconcile_def)
  moreover have "\<forall>i < base + M. color_entry (colors b') i = color_entry (colors (lines s1)) i"
    using b'(5) by (blast intro: color_entry_cong)
  ultimately show ?thesis using RL_LINES b'(2-4,6)
    by (simp add: active_cCounter_def active_vCounter_def active_colors_def active_vertices_def)
next
  case RL_TRIANGLES
  with c v len have "cCounter (triangles s1) = int (base + M)" "vCounter (triangles s1) = int (base + N)"
    "4 * (base + N) \<le> length (colors (triangles s1))"
    by (simp_all add: active_cCounter_def active_vCounter_def active_colors_def)
  from add_colors_fill [OF this(1,2) pos _ this(3)] lt obtain b' where
    b': "add_colors (triangles s1) = Inr b'" "cCounter b' = int (base + N)" "vCounter b' = int (base + N)"
      "vertices b' = vertices (triangles s1)"
      "\<forall>j < 4 * (base + M). colors b' ! j = colors (triangles s1) ! j"
      "\<forall>i. base + M \<le> i \<and> i < base + N \<longrightarrow>
          color_entry (colors b') i = color_entry (colors (triangles s1)) (base + M - 1)"
    by auto
  have "rlEnd e s = Inr (s1\<lparr>triangles := b', currentDepth := depth_increment e (currentDepth s1)\<rparr>)"
    using st RL_TRIANGLES b'(1) by (simp add: rlEnd_def reconcile_def)
  moreover have "\<forall>i < base + M. color_entry (colors b') i = color_entry (colors (triangles s1)) i"
    using b'(5) by (blast intro: color_entry_cong)
  ultimately show ?thesis using RL_TRIANGLES b'(2-4,6)
    by (simp add: active_cCounter_def active_vCounter_def active_colors_def active_vertices_def)
next
  case RL_QUADS
  with c v len have "cCounter (quads s1) = int (base + M)" "vCounter (quads s1) = int (base + N)"
    "4 * (base + N) \<le> length (colors (quads s1))"
    by (simp_all add: active_cCounter_def active_vCounter_def active_colors_def)
  from add_colors_fill [OF this(1,2) pos _ this(3)] lt obtain b' where
    b': "add_colors (quads s1) = Inr b'" "cCounter b' = int (base + N)" "vCounter b' = int (base + N)"
      "vertices b' = vertices (quads s1)"
      "\<forall>j < 4 * (base + M). colors b' ! j = colors (quads s1) ! j"
      "\<forall>i. base + M \<le> i \<and> i < base + N \<longrightarrow>
          color_entry (colors b') i = color_entry (colors (quads s1)) (base + M - 1)"
      and m: "VertexPositionColorBuffer.more b' = VertexPositionColorBuffer.more (quads s1)"
    by auto
  from tex RL_QUADS quads_more_eq [OF m] b'(3)
  have "0 \<le> tcCounter b'" "0 \<le> vCounter b'" "2 * vCounter b' \<le> int (length (texcoords b'))"
    by simp_all
  from add_texcoords_total [OF this] obtain q' where
    q': "add_texcoords b' = Inr q'" "vCounter q' = vCounter b'" "cCounter q' = cCounter b'"
      "vertices q' = vertices b'" "colors q' = colors b'"
    by auto
  have "rlEnd e s = Inr (s1\<lparr>quads := q', currentDepth := depth_increment e (currentDepth s1)\<rparr>)"
    using st RL_QUADS b'(1) q'(1) by (simp add: rlEnd_def reconcile_def)
  moreover have "\<forall>i < base + M. color_entry (colors b') i = color_entry (colors (quads s1)) i"
    using b'(5) by (blast intro: color_entry_cong)
  ultimately show ?thesis using RL_QUADS b'(2-4,6) q'(2-5)
    by (simp add: active_cCounter_def active_vCounter_def active_colors_def active_vertices_def)
next
  case RL_DRAWMODE_OTHER
  with mode show ?thesis by simp
qed


lemma run_append: "run e (xs @ ys) s = bindR (run e xs s) (run e ys)"
  by (induction xs arbitrary: s) (simp_all add: bindR_def split: sum.splits)

lemma rlEnd_repeats_last_color_example:
  "bindR (run env0 (two_triangles @ [Call_rlEnd]) state0)
     (\<lambda>t. Inr (cCounter (triangles t), vCounter (triangles t),
                map (color_entry (colors (triangles t))) [1, 2, 3, 4, 5]))
   = Inr (6, 6, [(0, 0, 255, 255), (0, 0, 255, 255), (0, 0, 255, 255), (0, 0, 255, 255),
                 (0, 0, 255, 255)])"
proof -
  have "\<exists>t. run env0 two_triangles state0 = Inr t \<and> \<not> useTempBuffer t
      \<and> currentDrawMode t = RL_TRIANGLES \<and> cCounter (triangles t) = 2
      \<and> vCounter (triangles t) = 6 \<and> length (colors (triangles t)) = 24
      \<and> color_entry (colors (triangles t)) 1 = (0, 0, 255, 255)"
    by (simp add: two_triangles_def state0_def env0_def run_defs color_entry_def)
  then obtain t where t: "run env0 two_triangles state0 = Inr t" "\<not> useTempBuffer t"
      "currentDrawMode t = RL_TRIANGLES" "cCounter (triangles t) = 2"
      "vCounter (triangles t) = 6" "length (colors (triangles t)) = 24"
      "color_entry (colors (triangles t)) 1 = (0, 0, 255, 255)"
    by blast
  have ft: "flush_temp env0 t = Inr t" using t(2) by (simp add: flush_temp_def)
  have "\<exists>s'. rlEnd env0 t = Inr s'
     \<and> currentDrawMode s' = currentDrawMode t
     \<and> active_cCounter s' = int (0 + 6)
     \<and> active_vCounter s' = int (0 + 6)
     \<and> active_vertices s' = active_vertices t
     \<and> (\<forall>i. 0 + 2 \<le> i \<and> i < 0 + 6 \<longrightarrow>
           color_entry (active_colors s') i = color_entry (active_colors t) (0 + 2 - 1))
     \<and> (\<forall>i < 0 + 2. color_entry (active_colors s') i = color_entry (active_colors t) i)"
    by (rule rlEnd_repeats_last_color [OF ft])
       (use t in \<open>simp_all add: active_cCounter_def active_vCounter_def active_colors_def\<close>)
  then obtain s' where s': "rlEnd env0 t = Inr s'" "currentDrawMode s' = RL_TRIANGLES"
      "cCounter (triangles s') = 6" "vCounter (triangles s') = 6"
      "\<forall>i. 2 \<le> i \<and> i < 6 \<longrightarrow>
           color_entry (colors (triangles s')) i = color_entry (colors (triangles t)) 1"
      "\<forall>i < 2. color_entry (colors (triangles s')) i = color_entry (colors (triangles t)) i"
    using t(3)
    by (auto simp: active_cCounter_def active_vCounter_def active_colors_def)
  from s'(5) have "color_entry (colors (triangles s')) 2 = color_entry (colors (triangles t)) 1"
    "color_entry (colors (triangles s')) 3 = color_entry (colors (triangles t)) 1"
    "color_entry (colors (triangles s')) 4 = color_entry (colors (triangles t)) 1"
    "color_entry (colors (triangles s')) 5 = color_entry (colors (triangles t)) 1"
    by simp_all
  moreover from s'(6) have "color_entry (colors (triangles s')) 1 = color_entry (colors (triangles t)) 1"
    by simp
  ultimately show ?thesis using t(1,7) s'(1,3,4) by (simp add: run_append)
qed

lemma add_colors_total:
  assumes "vCounter b \<le> cCounter b
      \<or> (1 \<le> cCounter b \<and> 4 * vCounter b \<le> int (length (colors b)))"
  shows "\<exists>b'. add_colors b = Inr b' \<and> vCounter b' = vCounter b \<and> vertices b' = vertices b
       \<and> VertexPositionColorBuffer.more b' = VertexPositionColorBuffer.more b"
proof (cases "vCounter b \<le> cCounter b")
  case True
  then show ?thesis by (simp add: add_colors_noop)
next
  case False
  with assms have "cCounter b = int (nat (cCounter b))" "vCounter b = int (nat (vCounter b))"
    "1 \<le> nat (cCounter b)" "nat (cCounter b) < nat (vCounter b)"
    "4 * nat (vCounter b) \<le> length (colors b)"
    by linarith+
  from add_colors_fill [OF this] False assms show ?thesis by auto
qed

lemma texcoord_entry_cong:
  "\<forall>j < 2 * t. ts' ! j = ts ! j \<Longrightarrow> i < t \<Longrightarrow> texcoord_entry ts' i = texcoord_entry ts i"
  by (simp add: texcoord_entry_def)

text \<open>The texcoord loop of \<^verbatim>\<open>rlEnd\<close>, for arrays with room and colours that can be
  reconciled.\<close>

lemma rlEnd_zero_fills:
  assumes st: "flush_temp e s = Inr s1"
    and mode: "currentDrawMode s1 = RL_QUADS"
    and t: "tcCounter (quads s1) = int t"
    and v: "vCounter (quads s1) = int v"
    and lt: "t < v"
    and len: "2 * v \<le> length (texcoords (quads s1))"
    and col: "vCounter (quads s1) \<le> cCounter (quads s1)
        \<or> (1 \<le> cCounter (quads s1) \<and> 4 * vCounter (quads s1) \<le> int (length (colors (quads s1))))"
  shows "\<exists>s'. rlEnd e s = Inr s'
     \<and> tcCounter (quads s') = int v
     \<and> vCounter (quads s') = int v
     \<and> vertices (quads s') = vertices (quads s1)
     \<and> (\<forall>i. t \<le> i \<and> i < v \<longrightarrow> texcoord_entry (texcoords (quads s')) i = (0, 0))
     \<and> (\<forall>i < t. texcoord_entry (texcoords (quads s')) i
                  = texcoord_entry (texcoords (quads s1)) i)"
proof -
  from add_colors_total [OF col] obtain b' where
    b': "add_colors (quads s1) = Inr b'" "vCounter b' = vCounter (quads s1)"
      "vertices b' = vertices (quads s1)"
      "VertexPositionColorBuffer.more b' = VertexPositionColorBuffer.more (quads s1)"
    by auto
  from quads_more_eq [OF b'(4)] t v len b'(2)
  have "tcCounter b' = int t" "vCounter b' = int v" "2 * v \<le> length (texcoords b')"
    and same: "texcoords b' = texcoords (quads s1)"
    by simp_all
  from add_texcoords_fill [OF this(1,2) lt this(3)] obtain q' where
    q': "add_texcoords b' = Inr q'" "tcCounter q' = int v" "vCounter q' = int v"
      "vertices q' = vertices b'"
      "\<forall>j < 2 * t. texcoords q' ! j = texcoords b' ! j"
      "\<forall>i. t \<le> i \<and> i < v \<longrightarrow> texcoord_entry (texcoords q') i = (0, 0)"
    by auto
  have "rlEnd e s = Inr (s1\<lparr>quads := q', currentDepth := depth_increment e (currentDepth s1)\<rparr>)"
    using st mode b'(1) q'(1) by (simp add: rlEnd_def reconcile_def)
  moreover have "\<forall>i < t. texcoord_entry (texcoords q') i = texcoord_entry (texcoords (quads s1)) i"
    using q'(5) same by (auto intro: texcoord_entry_cong)
  ultimately show ?thesis using q'(2-4,6) b'(3) by simp
qed

section \<open>Flush and the index array\<close>

lemma draw_entry_ok:
  "k < length ds \<Longrightarrow>
   draw_entry e ds k (off, cs) =
     Inr (off + vertexCount (ds ! k) sdiv 4 * 6,
          cs @ planned_calls (graphics_api e)
                 (textureId (ds ! k), vertexCount (ds ! k) sdiv 4 * 6, off))"
  by (cases "graphics_api e")
     (simp_all add: draw_entry_def rd_def Let_def planned_calls_def index_type_def index_size_def)

lemma draw_loop:
  "k + m \<le> length ds \<Longrightarrow>
   \<exists>off'. forM [k..<k + m] (draw_entry e ds) (off, cs) =
     Inr (off', cs @ concat (map (planned_calls (graphics_api e))
        (quad_draw_plan (map (\<lambda>d. (textureId d, vertexCount d)) (take m (drop k ds))) off)))"
proof (induction m arbitrary: k off cs)
  case 0
  then show ?case by simp
next
  case (Suc m)
  then have k: "k < length ds" and rest: "Suc k + m \<le> length ds" by simp_all
  have l: "[k..<k + Suc m] = k # [Suc k..<Suc k + m]"
    using upt_conv_Cons [of k "k + Suc m"] by (simp del: upt_Suc)
  have t: "take (Suc m) (drop k ds) = ds ! k # take m (drop (Suc k) ds)"
    using k by (simp add: Cons_nth_drop_Suc [symmetric])
  from Suc.IH [OF rest] obtain off' where
    "forM [Suc k..<Suc k + m] (draw_entry e ds)
       (off + vertexCount (ds ! k) sdiv 4 * 6,
        cs @ planned_calls (graphics_api e)
               (textureId (ds ! k), vertexCount (ds ! k) sdiv 4 * 6, off)) =
     Inr (off', (cs @ planned_calls (graphics_api e)
               (textureId (ds ! k), vertexCount (ds ! k) sdiv 4 * 6, off)) @
            concat (map (planned_calls (graphics_api e))
              (quad_draw_plan (map (\<lambda>d. (textureId d, vertexCount d)) (take m (drop (Suc k) ds)))
                 (off + vertexCount (ds ! k) sdiv 4 * 6))))"
    by blast
  then show ?case
    unfolding l t by (simp add: draw_entry_ok [OF k] Let_def)
qed

lemma draw_quads_plan:
  assumes "0 < vCounter (quads s)" "0 \<le> drawsCounter s" "drawsCounter s \<le> int (length (draws s))"
  shows "draw_quads e s =
     Inr (quads_bind s
          @ concat (map (planned_calls (graphics_api e)) (quad_draw_plan (ledger s) 0))
          @ quads_unbind s)"
proof -
  have "0 + nat (drawsCounter s) \<le> length (draws s)" using assms by simp
  from draw_loop [OF this, of e 0 "[]"] obtain off' where
    "forM [0..<nat (drawsCounter s)] (draw_entry e (draws s)) (0, []) =
       Inr (off', concat (map (planned_calls (graphics_api e)) (quad_draw_plan (ledger s) 0)))"
    by (auto simp: ledger_def)
  with assms(1) show ?thesis by (simp add: draw_quads_def)
qed

lemma draw_quads_total:
  assumes "0 < vCounter (quads s) \<longrightarrow> 0 \<le> drawsCounter s \<and> drawsCounter s \<le> int (length (draws s))"
  shows "\<exists>cs. draw_quads e s = Inr cs"
proof (cases "0 < vCounter (quads s)")
  case True
  with assms draw_quads_plan [of s e] show ?thesis by simp
next
  case False
  then show ?thesis by (simp add: draw_quads_def)
qed

text \<open>
  C7.  \<^verbatim>\<open>rlglDraw\<close> on a state whose ledger lies inside the \<^verbatim>\<open>draws\<close> array returns, and
  the state it leaves is the state before with only these changes: the OpenGL calls made
  are recorded, the counters of the three buffers are zero, \<^verbatim>\<open>drawsCounter\<close> is 1 and
  \<^verbatim>\<open>draws[0]\<close> is (\<^verbatim>\<open>whiteTexture\<close>, 0), so that the ledger is that single entry, and
  \<^verbatim>\<open>currentDepth\<close> is -1.  With all three buffers empty no call uploads data or
  draws.
\<close>

theorem flush_resets:
  assumes "draws s \<noteq> []"
    and "0 < vCounter (quads s) \<longrightarrow> 0 \<le> drawsCounter s \<and> drawsCounter s \<le> int (length (draws s))"
  shows "\<exists>calls s'. draw_calls e s = Inr calls \<and> rlglDraw e s = Inr s'
     \<and> s' = s\<lparr>gl_calls := gl_calls s @ calls,
              drawsCounter := 1,
              draws := (draws s)[0 := \<lparr>textureId = whiteTexture s, vertexCount = 0\<rparr>],
              lines := (lines s)\<lparr>vCounter := 0, cCounter := 0\<rparr>,
              triangles := (triangles s)\<lparr>vCounter := 0, cCounter := 0\<rparr>,
              quads := (quads s)\<lparr>vCounter := 0, tcCounter := 0, cCounter := 0\<rparr>,
              currentDepth := - 1\<rparr>
     \<and> ledger s' = [(whiteTexture s, 0)]
     \<and> (vCounter (lines s) = 0 \<and> vCounter (triangles s) = 0 \<and> vCounter (quads s) = 0 \<longrightarrow>
          \<not> list_ex is_upload_or_draw calls)"
proof -
  from draw_quads_total [OF assms(2)] obtain qc where qc: "draw_quads e s = Inr qc" by blast
  then obtain calls where calls: "draw_calls e s = Inr calls"
    by (simp add: draw_calls_def)
  have w: "wr (draws s) 0 \<lparr>textureId = whiteTexture s, vertexCount = 0\<rparr>
      = Inr ((draws s)[0 := \<lparr>textureId = whiteTexture s, vertexCount = 0\<rparr>])"
    using assms(1) by (simp add: wr_def)
  have r: "rlglDraw e s = Inr (s\<lparr>gl_calls := gl_calls s @ calls,
              drawsCounter := 1,
              draws := (draws s)[0 := \<lparr>textureId = whiteTexture s, vertexCount = 0\<rparr>],
              lines := (lines s)\<lparr>vCounter := 0, cCounter := 0\<rparr>,
              triangles := (triangles s)\<lparr>vCounter := 0, cCounter := 0\<rparr>,
              quads := (quads s)\<lparr>vCounter := 0, tcCounter := 0, cCounter := 0\<rparr>,
              currentDepth := - 1\<rparr>)"
    using calls w by (simp add: rlglDraw_def reset_batch_def)
  have l: "ledger (s\<lparr>gl_calls := gl_calls s @ calls,
              drawsCounter := 1,
              draws := (draws s)[0 := \<lparr>textureId = whiteTexture s, vertexCount = 0\<rparr>],
              lines := (lines s)\<lparr>vCounter := 0, cCounter := 0\<rparr>,
              triangles := (triangles s)\<lparr>vCounter := 0, cCounter := 0\<rparr>,
              quads := (quads s)\<lparr>vCounter := 0, tcCounter := 0, cCounter := 0\<rparr>,
              currentDepth := - 1\<rparr>) = [(whiteTexture s, 0)]"
    using assms(1) by (cases "draws s") (simp_all add: ledger_def)
  have e: "\<not> list_ex is_upload_or_draw calls"
    if "vCounter (lines s) = 0" "vCounter (triangles s) = 0" "vCounter (quads s) = 0"
    using that calls
    by (auto simp: draw_calls_def draw_quads_def UpdateDefaultBuffers_def split: if_splits)
  from calls r l e show ?thesis by blast
qed


lemma store_quad_indices_ok:
  assumes "6 * k + 5 < length idx"
  shows "store_quad_indices e (6 * int k) (int k) idx =
     Inr (idx[6 * k := to_index e (4 * int k),
              6 * k + 1 := to_index e (4 * int k + 1),
              6 * k + 2 := to_index e (4 * int k + 2),
              6 * k + 3 := to_index e (4 * int k),
              6 * k + 4 := to_index e (4 * int k + 2),
              6 * k + 5 := to_index e (4 * int k + 3)])"
proof -
  have n: "nat (6 * int k) = 6 * k" "nat (6 * int k + 1) = 6 * k + 1"
    "nat (6 * int k + 2) = 6 * k + 2" "nat (6 * int k + 3) = 6 * k + 3"
    "nat (6 * int k + 4) = 6 * k + 4" "nat (6 * int k + 5) = 6 * k + 5"
    by simp_all
  show ?thesis using assms by (simp add: store_quad_indices_def wr_def n)
qed

lemma index_loop_spec:
  assumes "MAX_QUADS_BATCH e = int m" "length idx = 6 * m" "k \<le> m" "n = m - k"
  shows "\<exists>idx'. index_loop e (6 * int k) (int k) idx = Inr idx' \<and> length idx' = 6 * m
     \<and> (\<forall>j < 6 * k. idx' ! j = idx ! j)
     \<and> (\<forall>q. k \<le> q \<and> q < m \<longrightarrow>
           index_sextuple idx' q =
             [to_index e (4 * int q), to_index e (4 * int q + 1), to_index e (4 * int q + 2),
              to_index e (4 * int q), to_index e (4 * int q + 2), to_index e (4 * int q + 3)])"
  using assms
proof (induction n arbitrary: k idx)
  case 0
  then have "k = m" by simp
  with 0 show ?case by (auto simp: index_loop.simps [of e "6 * int k"])
next
  case (Suc n)
  then have k: "k < m" by simp
  let ?idx1 = "idx[6 * k := to_index e (4 * int k),
              6 * k + 1 := to_index e (4 * int k + 1),
              6 * k + 2 := to_index e (4 * int k + 2),
              6 * k + 3 := to_index e (4 * int k),
              6 * k + 4 := to_index e (4 * int k + 2),
              6 * k + 5 := to_index e (4 * int k + 3)]"
  have st: "store_quad_indices e (6 * int k) (int k) idx = Inr ?idx1"
    using k Suc.prems by (intro store_quad_indices_ok) simp
  have "length ?idx1 = 6 * m" "Suc k \<le> m" "n = m - Suc k" using Suc.prems k by simp_all
  from Suc.IH [OF Suc.prems(1) this] obtain idx' where
    i': "index_loop e (6 * int (Suc k)) (int (Suc k)) ?idx1 = Inr idx'" "length idx' = 6 * m"
      "\<forall>j < 6 * Suc k. idx' ! j = ?idx1 ! j"
      "\<forall>q. Suc k \<le> q \<and> q < m \<longrightarrow>
           index_sextuple idx' q =
             [to_index e (4 * int q), to_index e (4 * int q + 1), to_index e (4 * int q + 2),
              to_index e (4 * int q), to_index e (4 * int q + 2), to_index e (4 * int q + 3)]"
    by blast
  have a: "6 * int (Suc k) = 6 * int k + 6" "int (Suc k) = int k + 1" by simp_all
  have run: "index_loop e (6 * int k) (int k) idx = Inr idx'"
    using k Suc.prems(1) st i'(1) unfolding a
    by (subst index_loop.simps) simp
  have len: "6 * k + 5 < length idx" using k Suc.prems by simp
  have low: "\<forall>j < 6 * k. idx' ! j = idx ! j"
    using i'(3) by simp
  have atk: "index_sextuple idx' k =
             [to_index e (4 * int k), to_index e (4 * int k + 1), to_index e (4 * int k + 2),
              to_index e (4 * int k), to_index e (4 * int k + 2), to_index e (4 * int k + 3)]"
    using i'(3) len by (simp add: index_sextuple_def)
  have hi: "\<forall>q. k \<le> q \<and> q < m \<longrightarrow>
           index_sextuple idx' q =
             [to_index e (4 * int q), to_index e (4 * int q + 1), to_index e (4 * int q + 2),
              to_index e (4 * int q), to_index e (4 * int q + 2), to_index e (4 * int q + 3)]"
  proof (intro allI impI)
    fix q assume q: "k \<le> q \<and> q < m"
    show "index_sextuple idx' q =
             [to_index e (4 * int q), to_index e (4 * int q + 1), to_index e (4 * int q + 2),
              to_index e (4 * int q), to_index e (4 * int q + 2), to_index e (4 * int q + 3)]"
    proof (cases "q = k")
      case True
      with atk show ?thesis by simp
    next
      case False
      with q have "Suc k \<le> q \<and> q < m" by simp
      with i'(4) show ?thesis by blast
    qed
  qed
  from run i'(2) low hi show ?case by blast
qed

lemma to_index_id:
  assumes "0 \<le> v" "v < 2 ^ index_bits e"
  shows "to_index e v = nat v"
  using assms by (simp add: to_index_def)

lemma quad_indices_pattern:
  assumes "0 \<le> MAX_QUADS_BATCH e" "4 * MAX_QUADS_BATCH e \<le> 2 ^ index_bits e"
  shows "\<exists>idx. quad_indices e = Inr idx \<and> length idx = nat (6 * MAX_QUADS_BATCH e)
     \<and> (\<forall>k. int k < MAX_QUADS_BATCH e \<longrightarrow>
           index_sextuple idx k = [4 * k, 4 * k + 1, 4 * k + 2, 4 * k, 4 * k + 2, 4 * k + 3])"
proof -
  define m where "m = nat (MAX_QUADS_BATCH e)"
  have m: "MAX_QUADS_BATCH e = int m" using assms(1) by (simp add: m_def)
  have len: "length (replicate (nat (6 * MAX_QUADS_BATCH e)) (0::nat)) = 6 * m"
    by (simp add: m nat_mult_distrib)
  from index_loop_spec [OF m len, of 0 m] obtain idx where
    idx: "index_loop e 0 0 (replicate (nat (6 * MAX_QUADS_BATCH e)) 0) = Inr idx"
      "length idx = 6 * m"
      "\<forall>q. q < m \<longrightarrow>
           index_sextuple idx q =
             [to_index e (4 * int q), to_index e (4 * int q + 1), to_index e (4 * int q + 2),
              to_index e (4 * int q), to_index e (4 * int q + 2), to_index e (4 * int q + 3)]"
    by auto
  have pat: "index_sextuple idx k = [4 * k, 4 * k + 1, 4 * k + 2, 4 * k, 4 * k + 2, 4 * k + 3]"
    if "int k < MAX_QUADS_BATCH e" for k
  proof -
    from that m have k: "k < m" by simp
    have b: "4 * int k + 3 < 2 ^ index_bits e" using that assms(2) by linarith
    have "to_index e (4 * int k) = 4 * k" "to_index e (4 * int k + 1) = 4 * k + 1"
      "to_index e (4 * int k + 2) = 4 * k + 2" "to_index e (4 * int k + 3) = 4 * k + 3"
      using b by (simp_all add: to_index_id nat_add_distrib nat_mult_distrib)
    with idx(3) k show ?thesis by simp
  qed
  from idx(1,2) pat show ?thesis
    by (auto simp: quad_indices_def m nat_mult_distrib)
qed



text \<open>No call changes the index array.\<close>

lemma repeat_color_more:
  "repeat_color b = Inr b' \<Longrightarrow>
   VertexPositionColorBuffer.more b' = VertexPositionColorBuffer.more b"
  by (auto simp: repeat_color_def bindR_eq_Inr)

lemma add_colors_more:
  assumes "add_colors b = Inr b'"
  shows "VertexPositionColorBuffer.more b' = VertexPositionColorBuffer.more b"
proof (cases "vCounter b \<noteq> cCounter b")
  case True
  with assms have a: "forM [0..<nat (vCounter b - cCounter b)] (\<lambda>i. repeat_color) b = Inr b'"
    by (simp add: add_colors_def)
  show ?thesis
    by (rule forM_preserves [where P = "\<lambda>t. VertexPositionColorBuffer.more t
          = VertexPositionColorBuffer.more b", OF _ a])
       (auto dest: repeat_color_more)
next
  case False
  with assms show ?thesis by (simp add: add_colors_def)
qed

lemma add_texcoords_indices:
  assumes "add_texcoords q = Inr q'"
  shows "indices q' = indices q"
proof (cases "vCounter q \<noteq> tcCounter q")
  case True
  with assms have a: "forM [0..<nat (vCounter q - tcCounter q)] (\<lambda>i. zero_texcoord) q = Inr q'"
    by (simp add: add_texcoords_def)
  show ?thesis
    by (rule forM_preserves [where P = "\<lambda>t. indices t = indices q", OF _ a])
       (auto simp: zero_texcoord_def bindR_eq_Inr)
next
  case False
  with assms show ?thesis by (simp add: add_texcoords_def)
qed

lemma rlVertex3f_indices:
  "rlVertex3f e px py pz s = Inr s' \<Longrightarrow> indices (quads s') = indices (quads s)"
  by (auto simp: rlVertex3f_def store_vertex_def count_quad_vertex_def bindR_eq_Inr
        TraceLog_eq_Inr split: if_splits DrawMode.splits)

lemma reconcile_indices:
  assumes "reconcile s = Inr s'" shows "indices (quads s') = indices (quads s)"
proof (cases "currentDrawMode s")
  case RL_QUADS
  with assms obtain q1 q2 where "add_colors (quads s) = Inr q1" "add_texcoords q1 = Inr q2"
    "s' = s\<lparr>quads := q2\<rparr>"
    by (auto simp: reconcile_def bindR_eq_Inr)
  with quads_more_eq(3) [OF add_colors_more] add_texcoords_indices show ?thesis
    by fastforce
qed (use assms in \<open>auto simp: reconcile_def bindR_eq_Inr\<close>)

lemma flush_temp_indices:
  assumes "flush_temp e s = Inr s'" shows "indices (quads s') = indices (quads s)"
proof (cases "useTempBuffer s")
  case False
  with assms show ?thesis by (simp add: flush_temp_def)
next
  case True
  from assms True obtain s1 s3 where
    a: "forM [0..<nat (tempBufferCount s)] (transform_temp e) s = Inr s1" and
    b: "forM [0..<nat (tempBufferCount s1)] (replay_temp e) (s1\<lparr>useTempBuffer := False\<rparr>) = Inr s3" and
    c: "s' = s3\<lparr>tempBufferCount := 0\<rparr>"
    by (auto simp: flush_temp_def bindR_eq_Inr Let_def)
  have "indices (quads s1) = indices (quads s)"
    by (rule forM_preserves [where P = "\<lambda>t. indices (quads t) = indices (quads s)", OF _ a])
       (auto simp: transform_temp_def bindR_eq_Inr wr_eq_Inr)
  moreover have "indices (quads s3) = indices (quads s1)"
    by (rule forM_preserves [where P = "\<lambda>t. indices (quads t) = indices (quads s1)", OF _ b])
       (auto simp: replay_temp_def bindR_eq_Inr dest: rlVertex3f_indices)
  ultimately show ?thesis using c by simp
qed

lemma assign_currentMatrix_quads [simp]: "quads (assign_currentMatrix m s) = quads s"
  by (simp add: assign_currentMatrix_def split: MatrixPtr.splits)

lemma exec_indices:
  assumes "exec e c s = Inr s'"
  shows "indices (quads s') = indices (quads s)"
proof (cases c)
  case Call_rlPushMatrix
  show ?thesis
  proof (cases "stackCounter s = MATRIX_STACK_SIZE - 1")
    case True
    with assms Call_rlPushMatrix show ?thesis by (simp add: rlPushMatrix_overflow)
  next
    case False
    with assms Call_rlPushMatrix show ?thesis
      by (cases "currentMatrixMode s = RL_MODELVIEW")
         (auto simp: rlPushMatrix_def bindR_eq_Inr Let_def rlLoadIdentity_def)
  qed
next
  case Call_rlPopMatrix
  with assms show ?thesis
    by (cases "stackCounter s > 0") (auto simp: rlPopMatrix_def bindR_eq_Inr Let_def)
next
  case Call_rlEnd
  with assms show ?thesis
    by (auto simp: rlEnd_def bindR_eq_Inr dest!: flush_temp_indices reconcile_indices)
next
  case (Call_rlVertex3f px py pz)
  with assms show ?thesis by (auto dest: rlVertex3f_indices)
next
  case (Call_rlVertex2f px py)
  with assms show ?thesis by (auto simp: rlVertex2f_def dest: rlVertex3f_indices)
next
  case (Call_rlTexCoord2f tx ty)
  with assms show ?thesis
    by (cases "currentDrawMode s = RL_QUADS") (auto simp: rlTexCoord2f_def bindR_eq_Inr)
next
  case (Call_rlColor4ub r g b a)
  with assms show ?thesis
    by (cases "currentDrawMode s") (auto simp: rlColor4ub_def store_color_def bindR_eq_Inr)
next
  case (Call_rlEnableTexture tid)
  with assms show ?thesis by (auto simp: rlEnableTexture_cases split: if_splits)
next
  case Call_rlglDraw
  with assms show ?thesis by (auto simp: rlglDraw_def reset_batch_def bindR_eq_Inr)
qed (use assms in \<open>auto simp: rlMatrixMode_def rlLoadIdentity_def rlMultMatrixf_def rlBegin_def Let_def\<close>)

lemma reachable_indices: "reachable e s \<Longrightarrow> quad_indices e = Inr (indices (quads s))"
  by (induction rule: reachable.induct)
     (auto simp: after_rlglInit_def dest: exec_indices)

theorem flush_resets_witness:
  "bindR (rlglDraw env0 state0) (\<lambda>t. Inr (ledger t, currentDepth t, gl_calls t))
     = Inr ([(1, 0)], - 1, [GlBindVertexArray 0, GlBindVertexArray 0, GlUseProgram 0])
   \<and> bindR (rlglDraw env0 three_runs)
        (\<lambda>t. Inr (ledger t, vCounter (quads t), tcCounter (quads t), cCounter (quads t),
                   currentDepth t))
     = Inr ([(1, 0)], 0, 0, 0, - 1)"
proof -
  have a: "draws state0 \<noteq> []"
    "0 < vCounter (quads state0) \<longrightarrow>
       0 \<le> drawsCounter state0 \<and> drawsCounter state0 \<le> int (length (draws state0))"
    by (simp_all add: state0_def)
  have c: "draw_calls env0 state0 = Inr [GlBindVertexArray 0, GlBindVertexArray 0, GlUseProgram 0]"
    by (simp add: draw_calls_def draw_quads_def UpdateDefaultBuffers_def state0_def)
  from flush_resets [OF a, of env0] c
  have 1: "bindR (rlglDraw env0 state0) (\<lambda>t. Inr (ledger t, currentDepth t, gl_calls t))
     = Inr ([(1, 0)], - 1, [GlBindVertexArray 0, GlBindVertexArray 0, GlUseProgram 0])"
    by (auto simp: state0_def)
  have b: "draws three_runs \<noteq> []"
    "0 < vCounter (quads three_runs) \<longrightarrow>
       0 \<le> drawsCounter three_runs \<and> drawsCounter three_runs \<le> int (length (draws three_runs))"
    by (simp_all add: three_runs_def state0_def)
  from flush_resets [OF b, of env0]
  have 2: "bindR (rlglDraw env0 three_runs)
        (\<lambda>t. Inr (ledger t, vCounter (quads t), tcCounter (quads t), cCounter (quads t),
                   currentDepth t))
     = Inr ([(1, 0)], 0, 0, 0, - 1)"
    by (auto simp: three_runs_def state0_def)
  from 1 2 show ?thesis by simp
qed

section \<open>Deferred staging\<close>

lemma deref_tempBuffer_update [simp]:
  "deref_currentMatrix (s\<lparr>tempBuffer := tb\<rparr>) = deref_currentMatrix s"
  by (simp add: deref_currentMatrix_def split: MatrixPtr.splits)

lemma transform_temp_ok:
  "k < length (tempBuffer s) \<Longrightarrow>
   transform_temp e k s =
     Inr (s\<lparr>tempBuffer := (tempBuffer s)[k := VectorTransform e (tempBuffer s ! k)
                                                 (deref_currentMatrix s)]\<rparr>)"
  by (simp add: transform_temp_def rd_def wr_def)

lemma transform_loop:
  "k + m \<le> length (tempBuffer s) \<Longrightarrow>
   forM [k..<k + m] (transform_temp e) s =
     Inr (s\<lparr>tempBuffer := take k (tempBuffer s)
            @ map (\<lambda>v. VectorTransform e v (deref_currentMatrix s)) (take m (drop k (tempBuffer s)))
            @ drop (k + m) (tempBuffer s)\<rparr>)"
proof (induction m arbitrary: k s)
  case 0
  then show ?case by simp
next
  case (Suc m)
  then have k: "k < length (tempBuffer s)" by simp
  let ?f = "\<lambda>v. VectorTransform e v (deref_currentMatrix s)"
  let ?s1 = "s\<lparr>tempBuffer := (tempBuffer s)[k := ?f (tempBuffer s ! k)]\<rparr>"
  have l: "[k..<k + Suc m] = k # [Suc k..<Suc k + m]"
    using upt_conv_Cons [of k "k + Suc m"] by (simp del: upt_Suc)
  have len: "Suc k + m \<le> length (tempBuffer ?s1)" using Suc.prems by simp
  have t1: "take (Suc k) ((tempBuffer s)[k := ?f (tempBuffer s ! k)])
      = take k (tempBuffer s) @ [?f (tempBuffer s ! k)]"
    using k by (simp add: take_Suc_conv_app_nth)
  have t2: "take (Suc m) (drop k (tempBuffer s)) = tempBuffer s ! k # take m (drop (Suc k) (tempBuffer s))"
    using k by (simp add: Cons_nth_drop_Suc [symmetric])
  have ih: "forM [Suc k..<Suc k + m] (transform_temp e) ?s1 =
      Inr (?s1\<lparr>tempBuffer := take (Suc k) (tempBuffer ?s1)
            @ map (\<lambda>v. VectorTransform e v (deref_currentMatrix ?s1))
                (take m (drop (Suc k) (tempBuffer ?s1)))
            @ drop (Suc k + m) (tempBuffer ?s1)\<rparr>)"
    by (rule Suc.IH [OF len])
  have "forM [k..<k + Suc m] (transform_temp e) s = forM [Suc k..<Suc k + m] (transform_temp e) ?s1"
    by (simp only: l forM.simps transform_temp_ok [OF k] bindR_Inr)
  also note ih
  finally show ?case using k by (simp add: t1 t2)
qed

lemma rlVertex3f_keeps_staging:
  assumes "rlVertex3f e px py pz s = Inr s'" "\<not> useTempBuffer s"
  shows "tempBuffer s' = tempBuffer s \<and> \<not> useTempBuffer s' \<and> tempBufferCount s' = tempBufferCount s"
  using assms
  by (auto simp: rlVertex3f_def store_vertex_def count_quad_vertex_def bindR_eq_Inr
        TraceLog_eq_Inr split: if_splits DrawMode.splits)

lemma replay_temp_ok:
  "k < length (tempBuffer s) \<Longrightarrow> replay_temp e k s = exec e (vertex_call (tempBuffer s ! k)) s"
  by (simp add: replay_temp_def rd_def vertex_call_def)

lemma replay_loop:
  "k + m \<le> length (tempBuffer s) \<Longrightarrow> \<not> useTempBuffer s \<Longrightarrow>
   forM [k..<k + m] (replay_temp e) s = run e (map vertex_call (take m (drop k (tempBuffer s)))) s"
proof (induction m arbitrary: k s)
  case 0
  then show ?case by simp
next
  case (Suc m)
  then have k: "k < length (tempBuffer s)" by simp
  have l: "[k..<k + Suc m] = k # [Suc k..<Suc k + m]"
    using upt_conv_Cons [of k "k + Suc m"] by (simp del: upt_Suc)
  have t2: "take (Suc m) (drop k (tempBuffer s)) = tempBuffer s ! k # take m (drop (Suc k) (tempBuffer s))"
    using k by (simp add: Cons_nth_drop_Suc [symmetric])
  show ?case
  proof (cases "exec e (vertex_call (tempBuffer s ! k)) s")
    case (Inl f)
    then show ?thesis unfolding l t2 by (simp add: replay_temp_ok [OF k] del: upt_Suc)
  next
    case (Inr s1)
    then have "rlVertex3f e (vec_x (tempBuffer s ! k)) (vec_y (tempBuffer s ! k))
        (vec_z (tempBuffer s ! k)) s = Inr s1"
      by (simp add: vertex_call_def)
    from rlVertex3f_keeps_staging [OF this Suc.prems(2)]
    have keep: "tempBuffer s1 = tempBuffer s" "\<not> useTempBuffer s1" by simp_all
    with Suc.prems have "Suc k + m \<le> length (tempBuffer s1)" by simp
    from Suc.IH [OF this keep(2)] Inr keep(1) show ?thesis
      unfolding l t2 by (simp add: replay_temp_ok [OF k] del: upt_Suc)
  qed
qed

lemma run_vertex_calls_keep:
  "run e (map vertex_call vs) s = Inr s' \<Longrightarrow> \<not> useTempBuffer s \<Longrightarrow>
   \<not> useTempBuffer s' \<and> tempBufferCount s' = tempBufferCount s"
proof (induction vs arbitrary: s)
  case Nil
  then show ?case by simp
next
  case (Cons v vs)
  then obtain s1 where s1: "exec e (vertex_call v) s = Inr s1"
      "run e (map vertex_call vs) s1 = Inr s'"
    by (auto simp: bindR_eq_Inr)
  from s1(1) have "rlVertex3f e (vec_x v) (vec_y v) (vec_z v) s = Inr s1"
    by (simp add: vertex_call_def)
  from rlVertex3f_keeps_staging [OF this Cons.prems(2)] Cons.IH [OF s1(2)]
  show ?case by simp
qed

text \<open>The staging branch of \<^verbatim>\<open>rlVertex3f\<close> has no \<^verbatim>\<open>TEMP_VERTEX_BUFFER_SIZE\<close> check: with
  the staging array full, the point is stored past its end.\<close>

lemma staging_full_faults:
  "useTempBuffer s \<Longrightarrow> tempBufferCount s = int (length (tempBuffer s)) \<Longrightarrow>
   rlVertex3f e px py pz s = Inl OutOfBounds"
  by (simp add: rlVertex3f_def wr_def)

lemma run_staged_calls: "run env0 staged_calls state0 = Inr staged_state"
  by (simp add: staged_calls_def staged_state_def state0_def env0_def run_defs
        rlPushMatrix_def rlLoadIdentity_def rlMultMatrixf_def assign_currentMatrix_def
        deref_currentMatrix_def MATRIX_STACK_SIZE_def shift_matrix_def list_update_same_conv)

section \<open>The ledger in reachable states\<close>

lemma ledger_inv_cong:
  "draws s' = draws s \<Longrightarrow> drawsCounter s' = drawsCounter s \<Longrightarrow>
   vCounter (quads s') = vCounter (quads s) \<Longrightarrow> ledger_inv s \<Longrightarrow> ledger_inv s'"
  by (simp add: ledger_inv_def ledger_ok_def ledger_sum_def)

lemma assign_currentMatrix_ledger [simp]:
  "draws (assign_currentMatrix m s) = draws s"
  "drawsCounter (assign_currentMatrix m s) = drawsCounter s"
  by (simp_all add: assign_currentMatrix_def split: MatrixPtr.splits)

lemma rlVertex3f_other:
  assumes "rlVertex3f e px py pz s = Inr s'" "useTempBuffer s \<or> currentDrawMode s \<noteq> RL_QUADS"
  shows "draws s' = draws s \<and> drawsCounter s' = drawsCounter s
       \<and> vCounter (quads s') = vCounter (quads s)"
  using assms
  by (auto simp: rlVertex3f_def store_vertex_def bindR_eq_Inr TraceLog_eq_Inr
        split: if_splits DrawMode.splits)

lemma rlVertex3f_ledger_inv:
  assumes "rlVertex3f e px py pz s = Inr s'" "ledger_inv s"
  shows "ledger_inv s'"
proof (cases "useTempBuffer s \<or> currentDrawMode s \<noteq> RL_QUADS")
  case True
  from rlVertex3f_other [OF assms(1) True] assms(2) show ?thesis
    by (auto intro: ledger_inv_cong)
next
  case False
  with vertex_step [OF _ assms(1)] assms(2) show ?thesis
    by (simp add: ledger_inv_def)
qed

lemma repeat_color_vCounter: "repeat_color b = Inr b' \<Longrightarrow> vCounter b' = vCounter b"
  by (auto simp: repeat_color_def bindR_eq_Inr)

lemma add_colors_vCounter:
  assumes "add_colors b = Inr b'" shows "vCounter b' = vCounter b"
proof (cases "vCounter b \<noteq> cCounter b")
  case True
  with assms have a: "forM [0..<nat (vCounter b - cCounter b)] (\<lambda>i. repeat_color) b = Inr b'"
    by (simp add: add_colors_def)
  show ?thesis
    by (rule forM_preserves [where P = "\<lambda>t. vCounter t = vCounter b", OF _ a])
       (auto dest: repeat_color_vCounter)
next
  case False
  with assms show ?thesis by (simp add: add_colors_def)
qed

lemma add_texcoords_vCounter:
  assumes "add_texcoords q = Inr q'" shows "vCounter q' = vCounter q"
proof (cases "vCounter q \<noteq> tcCounter q")
  case True
  with assms have a: "forM [0..<nat (vCounter q - tcCounter q)] (\<lambda>i. zero_texcoord) q = Inr q'"
    by (simp add: add_texcoords_def)
  show ?thesis
    by (rule forM_preserves [where P = "\<lambda>t. vCounter t = vCounter q", OF _ a])
       (auto simp: zero_texcoord_def bindR_eq_Inr)
next
  case False
  with assms show ?thesis by (simp add: add_texcoords_def)
qed

lemma reconcile_ledger_inv:
  assumes "reconcile s = Inr s'" "ledger_inv s" shows "ledger_inv s'"
proof (cases "currentDrawMode s")
  case RL_QUADS
  with assms(1) obtain q1 q2 where q: "add_colors (quads s) = Inr q1" "add_texcoords q1 = Inr q2"
    "s' = s\<lparr>quads := q2\<rparr>"
    by (auto simp: reconcile_def bindR_eq_Inr)
  have "vCounter q2 = vCounter (quads s)"
    using add_colors_vCounter [OF q(1)] add_texcoords_vCounter [OF q(2)] by simp
  with q(3) assms(2) show ?thesis
    by (intro ledger_inv_cong [of s' s]) simp_all
qed (use assms in \<open>auto simp: reconcile_def bindR_eq_Inr intro: ledger_inv_cong\<close>)

lemma flush_temp_ledger_inv:
  assumes "flush_temp e s = Inr s'" "ledger_inv s" shows "ledger_inv s'"
proof (cases "useTempBuffer s")
  case False
  with assms show ?thesis by (simp add: flush_temp_def)
next
  case True
  from assms True obtain s1 s3 where
    a: "forM [0..<nat (tempBufferCount s)] (transform_temp e) s = Inr s1" and
    b: "forM [0..<nat (tempBufferCount s1)] (replay_temp e) (s1\<lparr>useTempBuffer := False\<rparr>) = Inr s3" and
    c: "s' = s3\<lparr>tempBufferCount := 0\<rparr>"
    by (auto simp: flush_temp_def bindR_eq_Inr Let_def)
  have "ledger_inv s1"
    by (rule forM_preserves [where P = ledger_inv, OF _ a assms(2)])
       (auto simp: transform_temp_def bindR_eq_Inr wr_eq_Inr intro: ledger_inv_cong)
  then have "ledger_inv (s1\<lparr>useTempBuffer := False\<rparr>)"
    by (auto intro: ledger_inv_cong)
  have "ledger_inv s3"
    by (rule forM_preserves [where P = ledger_inv, OF _ b \<open>ledger_inv (s1\<lparr>useTempBuffer := False\<rparr>)\<close>])
       (auto simp: replay_temp_def bindR_eq_Inr dest: rlVertex3f_ledger_inv)
  with c show ?thesis by (auto intro: ledger_inv_cong)
qed

lemma rlglDraw_ledger_inv:
  assumes "rlglDraw e s = Inr s'" shows "ledger_inv s'"
proof -
  from assms obtain calls where
    "s' = s\<lparr>gl_calls := gl_calls s @ calls, drawsCounter := 1,
            draws := (draws s)[0 := \<lparr>textureId = whiteTexture s, vertexCount = 0\<rparr>],
            lines := (lines s)\<lparr>vCounter := 0, cCounter := 0\<rparr>,
            triangles := (triangles s)\<lparr>vCounter := 0, cCounter := 0\<rparr>,
            quads := (quads s)\<lparr>vCounter := 0, tcCounter := 0, cCounter := 0\<rparr>,
            currentDepth := - 1\<rparr>" and "draws s \<noteq> []"
    by (auto simp: rlglDraw_def reset_batch_def bindR_eq_Inr wr_eq_Inr)
  then show ?thesis
    by (cases "draws s") (simp_all add: ledger_inv_def ledger_ok_def ledger_sum_def)
qed

lemma exec_ledger_inv:
  assumes "exec e c s = Inr s'" "ledger_inv s"
  shows "ledger_inv s'"
proof (cases c)
  case Call_rlPushMatrix
  show ?thesis
  proof (cases "stackCounter s = MATRIX_STACK_SIZE - 1")
    case True
    with assms Call_rlPushMatrix show ?thesis by (simp add: rlPushMatrix_overflow)
  next
    case False
    with assms Call_rlPushMatrix show ?thesis
      by (cases "currentMatrixMode s = RL_MODELVIEW")
         (auto simp: rlPushMatrix_def bindR_eq_Inr Let_def rlLoadIdentity_def
            intro!: ledger_inv_cong [of _ s])
  qed
next
  case Call_rlPopMatrix
  with assms show ?thesis
    by (cases "stackCounter s > 0")
       (auto simp: rlPopMatrix_def bindR_eq_Inr Let_def intro!: ledger_inv_cong [of _ s])
next
  case Call_rlEnd
  with assms obtain s1 s2 where q: "flush_temp e s = Inr s1" "reconcile s1 = Inr s2"
    "s' = s2\<lparr>currentDepth := depth_increment e (currentDepth s2)\<rparr>"
    by (auto simp: rlEnd_def bindR_eq_Inr)
  have "ledger_inv s2"
    using reconcile_ledger_inv [OF q(2) flush_temp_ledger_inv [OF q(1) assms(2)]] .
  with q(3) show ?thesis
    by (intro ledger_inv_cong [of s' s2]) simp_all
next
  case (Call_rlVertex3f px py pz)
  with assms show ?thesis by (auto dest: rlVertex3f_ledger_inv)
next
  case (Call_rlVertex2f px py)
  with assms show ?thesis by (auto simp: rlVertex2f_def dest: rlVertex3f_ledger_inv)
next
  case (Call_rlTexCoord2f tx ty)
  with assms show ?thesis
    by (cases "currentDrawMode s = RL_QUADS")
       (auto simp: rlTexCoord2f_def bindR_eq_Inr intro!: ledger_inv_cong [of _ s])
next
  case (Call_rlColor4ub r g b a)
  with assms show ?thesis
    by (cases "currentDrawMode s")
       (auto simp: rlColor4ub_def store_color_def bindR_eq_Inr intro!: ledger_inv_cong [of _ s])
next
  case (Call_rlEnableTexture tid)
  with assms enable_step [of s tid s'] show ?thesis
    by (simp add: ledger_inv_def)
next
  case Call_rlglDraw
  with assms show ?thesis by (auto dest: rlglDraw_ledger_inv)
qed (use assms in \<open>auto simp: rlMatrixMode_def rlLoadIdentity_def rlMultMatrixf_def rlBegin_def
       Let_def intro!: ledger_inv_cong [of _ s]\<close>)

lemma reachable_ledger_inv: "reachable e s \<Longrightarrow> ledger_inv s"
proof (induction rule: reachable.induct)
  case (reachable_init s)
  then show ?case
    by (simp add: after_rlglInit_def ledger_inv_def ledger_ok_def ledger_sum_def
          MAX_DRAWS_BY_TEXTURE_def take_Suc_conv_app_nth)
next
  case (reachable_exec s c s')
  then show ?case by (auto dest: exec_ledger_inv)
qed

section \<open>Buffer bounds in reachable states\<close>

lemma buffers_inv_cong:
  "lines s' = lines s \<Longrightarrow> triangles s' = triangles s \<Longrightarrow> quads s' = quads s \<Longrightarrow>
   tempBuffer s' = tempBuffer s \<Longrightarrow> tempBufferCount s' = tempBufferCount s \<Longrightarrow>
   length (draws s') = length (draws s) \<Longrightarrow> buffers_inv e s \<Longrightarrow> buffers_inv e s'"
  by (simp add: buffers_inv_def)

lemma store_vertex_buffer_ok:
  assumes "store_vertex px py pz b = Inr b'" "buffer_ok cap b"
  shows "buffer_ok cap b' \<and> VertexPositionColorBuffer.more b' = VertexPositionColorBuffer.more b"
proof -
  from assms(1) have b': "b' = b\<lparr>vertices := (vertices b)[nat (3 * vCounter b) := px,
        nat (3 * vCounter b + 1) := py, nat (3 * vCounter b + 2) := pz],
        vCounter := vCounter b + 1\<rparr>" and lt: "3 * vCounter b + 2 < int (length (vertices b))"
    by (auto simp: store_vertex_def bindR_eq_Inr wr_eq_Inr)
  from lt assms(2) have "vCounter b + 1 \<le> int (nat cap)"
    by (auto simp: buffer_ok_def split: if_splits)
  with assms(2) show ?thesis by (simp add: b' buffer_ok_def)
qed

lemma store_color_buffer_ok:
  assumes "store_color r g bl a b = Inr b'" "buffer_ok cap b"
  shows "buffer_ok cap b' \<and> VertexPositionColorBuffer.more b' = VertexPositionColorBuffer.more b"
  using assms by (auto simp: store_color_def bindR_eq_Inr wr_eq_Inr buffer_ok_def)

lemma repeat_color_buffer_ok:
  assumes "repeat_color b = Inr b'" "buffer_ok cap b"
  shows "buffer_ok cap b'"
  using assms by (auto simp: repeat_color_def copy_elem_def bindR_eq_Inr wr_eq_Inr rd_eq_Inr buffer_ok_def)

lemma add_colors_buffer_ok:
  assumes "add_colors b = Inr b'" "buffer_ok cap b"
  shows "buffer_ok cap b'"
proof (cases "vCounter b \<noteq> cCounter b")
  case True
  with assms have a: "forM [0..<nat (vCounter b - cCounter b)] (\<lambda>i. repeat_color) b = Inr b'"
    by (simp add: add_colors_def)
  show ?thesis
    by (rule forM_preserves [where P = "buffer_ok cap", OF _ a assms(2)])
       (auto dest: repeat_color_buffer_ok)
next
  case False
  with assms show ?thesis by (simp add: add_colors_def)
qed

lemma add_texcoords_frame:
  assumes "add_texcoords q = Inr q'"
  shows "vCounter q' = vCounter q \<and> cCounter q' = cCounter q \<and> vertices q' = vertices q
       \<and> colors q' = colors q \<and> length (texcoords q') = length (texcoords q)
       \<and> (0 \<le> tcCounter q \<longrightarrow> 0 \<le> tcCounter q')"
proof (cases "vCounter q \<noteq> tcCounter q")
  case True
  with assms have a: "forM [0..<nat (vCounter q - tcCounter q)] (\<lambda>i. zero_texcoord) q = Inr q'"
    by (simp add: add_texcoords_def)
  show ?thesis
    by (rule forM_preserves [where P = "\<lambda>t. vCounter t = vCounter q \<and> cCounter t = cCounter q
          \<and> vertices t = vertices q \<and> colors t = colors q
          \<and> length (texcoords t) = length (texcoords q)
          \<and> (0 \<le> tcCounter q \<longrightarrow> 0 \<le> tcCounter t)", OF _ a])
       (auto simp: zero_texcoord_def bindR_eq_Inr wr_eq_Inr)
next
  case False
  with assms show ?thesis by (simp add: add_texcoords_def)
qed

lemma buffer_ok_quads_cong:
  fixes q q' :: VertexPositionColorTextureIndexBuffer
  shows "vCounter q' = vCounter q \<Longrightarrow> cCounter q' = cCounter q \<Longrightarrow> vertices q' = vertices q \<Longrightarrow>
   colors q' = colors q \<Longrightarrow> buffer_ok cap q \<Longrightarrow> buffer_ok cap q'"
  by (simp add: buffer_ok_def)

lemma rlVertex3f_buffers_inv:
  assumes r: "rlVertex3f e px py pz s = Inr s'" and i: "buffers_inv e s"
  shows "buffers_inv e s'"
proof (cases "useTempBuffer s")
  case True
  with r i show ?thesis
    by (auto simp: rlVertex3f_def bindR_eq_Inr wr_eq_Inr buffers_inv_def)
next
  case stg: False
  show ?thesis
  proof (cases "currentDrawMode s")
    case RL_LINES
    with r stg obtain b where "store_vertex px py pz (lines s) = Inr b" "s' = s\<lparr>lines := b\<rparr>"
      by (auto simp: rlVertex3f_def bindR_eq_Inr TraceLog_eq_Inr split: if_splits)
    with store_vertex_buffer_ok [OF this(1)] i show ?thesis by (simp add: buffers_inv_def)
  next
    case RL_TRIANGLES
    with r stg obtain b where "store_vertex px py pz (triangles s) = Inr b" "s' = s\<lparr>triangles := b\<rparr>"
      by (auto simp: rlVertex3f_def bindR_eq_Inr TraceLog_eq_Inr split: if_splits)
    with store_vertex_buffer_ok [OF this(1)] i show ?thesis by (simp add: buffers_inv_def)
  next
    case RL_QUADS
    with r stg obtain b where b: "store_vertex px py pz (quads s) = Inr b"
        "count_quad_vertex (s\<lparr>quads := b\<rparr>) = Inr s'"
      by (auto simp: rlVertex3f_def bindR_eq_Inr TraceLog_eq_Inr split: if_splits)
    from b(2) obtain ds where s': "s' = s\<lparr>quads := b, draws := ds\<rparr>" "length ds = length (draws s)"
      by (auto simp: count_quad_vertex_def bindR_eq_Inr wr_eq_Inr)
    from i have ok: "buffer_ok (4 * MAX_QUADS_BATCH e) (quads s)" by (simp add: buffers_inv_def)
    from store_vertex_buffer_ok [OF b(1) ok]
    have "buffer_ok (4 * MAX_QUADS_BATCH e) b" "texcoords b = texcoords (quads s)"
      "tcCounter b = tcCounter (quads s)"
      using quads_more_eq [of b "quads s"] by simp_all
    with s' i show ?thesis
      by (simp add: buffers_inv_def)
  next
    case RL_DRAWMODE_OTHER
    with r stg i show ?thesis by (simp add: rlVertex3f_def)
  qed
qed

lemma rlColor4ub_buffers_inv:
  assumes r: "rlColor4ub cr cg cb ca s = Inr s'" and i: "buffers_inv e s"
  shows "buffers_inv e s'"
proof (cases "currentDrawMode s")
  case RL_LINES
  with r obtain b where "store_color cr cg cb ca (lines s) = Inr b" "s' = s\<lparr>lines := b\<rparr>"
    by (auto simp: rlColor4ub_def bindR_eq_Inr)
  with store_color_buffer_ok [OF this(1)] i show ?thesis by (simp add: buffers_inv_def)
next
  case RL_TRIANGLES
  with r obtain b where "store_color cr cg cb ca (triangles s) = Inr b" "s' = s\<lparr>triangles := b\<rparr>"
    by (auto simp: rlColor4ub_def bindR_eq_Inr)
  with store_color_buffer_ok [OF this(1)] i show ?thesis by (simp add: buffers_inv_def)
next
  case RL_QUADS
  with r obtain b where b: "store_color cr cg cb ca (quads s) = Inr b" "s' = s\<lparr>quads := b\<rparr>"
    by (auto simp: rlColor4ub_def bindR_eq_Inr)
  from i have ok: "buffer_ok (4 * MAX_QUADS_BATCH e) (quads s)" by (simp add: buffers_inv_def)
  from store_color_buffer_ok [OF b(1) ok]
  have "buffer_ok (4 * MAX_QUADS_BATCH e) b" "texcoords b = texcoords (quads s)"
    "tcCounter b = tcCounter (quads s)"
    using quads_more_eq [of b "quads s"] by simp_all
  with b(2) i show ?thesis
    by (simp add: buffers_inv_def)
next
  case RL_DRAWMODE_OTHER
  with r i show ?thesis by (simp add: rlColor4ub_def)
qed

lemma rlTexCoord2f_buffers_inv:
  assumes r: "rlTexCoord2f tx ty s = Inr s'" and i: "buffers_inv e s"
  shows "buffers_inv e s'"
proof (cases "currentDrawMode s = RL_QUADS")
  case True
  from True r obtain t1 t2 where w: "wr (texcoords (quads s)) (2 * tcCounter (quads s)) tx = Inr t1"
      "wr t1 (2 * tcCounter (quads s) + 1) ty = Inr t2"
      and s': "s' = s\<lparr>quads := (quads s)\<lparr>texcoords := t2,
        tcCounter := tcCounter (quads s) + 1\<rparr>\<rparr>"
    unfolding rlTexCoord2f_def by (simp add: bindR_eq_Inr) blast
  from w have "length t2 = length (texcoords (quads s))" "0 \<le> tcCounter (quads s)"
    by (auto simp: wr_eq_Inr)
  note s' = s' this
  from i have "buffer_ok (4 * MAX_QUADS_BATCH e) (quads s)" by (simp add: buffers_inv_def)
  then have "buffer_ok (4 * MAX_QUADS_BATCH e)
      ((quads s)\<lparr>texcoords := t2, tcCounter := tcCounter (quads s) + 1\<rparr>)"
    by (simp add: buffer_ok_def)
  with i s' show ?thesis by (simp add: buffers_inv_def)
next
  case False
  with r i show ?thesis by (simp add: rlTexCoord2f_def)
qed

lemma reconcile_buffers_inv:
  assumes r: "reconcile s = Inr s'" and i: "buffers_inv e s"
  shows "buffers_inv e s'"
proof (cases "currentDrawMode s")
  case RL_LINES
  with r obtain b where "add_colors (lines s) = Inr b" "s' = s\<lparr>lines := b\<rparr>"
    by (auto simp: reconcile_def bindR_eq_Inr)
  with add_colors_buffer_ok [OF this(1)] i show ?thesis by (simp add: buffers_inv_def)
next
  case RL_TRIANGLES
  with r obtain b where "add_colors (triangles s) = Inr b" "s' = s\<lparr>triangles := b\<rparr>"
    by (auto simp: reconcile_def bindR_eq_Inr)
  with add_colors_buffer_ok [OF this(1)] i show ?thesis by (simp add: buffers_inv_def)
next
  case RL_QUADS
  with r obtain q1 q2 where q: "add_colors (quads s) = Inr q1" "add_texcoords q1 = Inr q2"
      "s' = s\<lparr>quads := q2\<rparr>"
    by (auto simp: reconcile_def bindR_eq_Inr)
  from i have ok: "buffer_ok (4 * MAX_QUADS_BATCH e) (quads s)" by (simp add: buffers_inv_def)
  note m = quads_more_eq [OF add_colors_more [OF q(1)]]
  note f = add_texcoords_frame [OF q(2)]
  have "buffer_ok (4 * MAX_QUADS_BATCH e) q2"
    using f add_colors_buffer_ok [OF q(1) ok] by (intro buffer_ok_quads_cong [of q2 q1]) simp_all
  with f m i show ?thesis by (simp add: buffers_inv_def q(3))
next
  case RL_DRAWMODE_OTHER
  with r i show ?thesis by (simp add: reconcile_def)
qed

lemma flush_temp_buffers_inv:
  assumes "flush_temp e s = Inr s'" "buffers_inv e s" shows "buffers_inv e s'"
proof (cases "useTempBuffer s")
  case False
  with assms show ?thesis by (simp add: flush_temp_def)
next
  case True
  from assms True obtain s1 s3 where
    a: "forM [0..<nat (tempBufferCount s)] (transform_temp e) s = Inr s1" and
    b: "forM [0..<nat (tempBufferCount s1)] (replay_temp e) (s1\<lparr>useTempBuffer := False\<rparr>) = Inr s3" and
    c: "s' = s3\<lparr>tempBufferCount := 0\<rparr>"
    by (auto simp: flush_temp_def bindR_eq_Inr Let_def)
  have "buffers_inv e s1"
    by (rule forM_preserves [where P = "buffers_inv e", OF _ a assms(2)])
       (auto simp: transform_temp_def bindR_eq_Inr wr_eq_Inr buffers_inv_def)
  then have "buffers_inv e (s1\<lparr>useTempBuffer := False\<rparr>)"
    by (simp add: buffers_inv_def)
  have "buffers_inv e s3"
    by (rule forM_preserves [where P = "buffers_inv e", OF _ b \<open>buffers_inv e (s1\<lparr>useTempBuffer := False\<rparr>)\<close>])
       (auto simp: replay_temp_def bindR_eq_Inr dest: rlVertex3f_buffers_inv)
  with c show ?thesis by (simp add: buffers_inv_def TEMP_VERTEX_BUFFER_SIZE_def)
qed

lemma rlglDraw_buffers_inv:
  assumes "rlglDraw e s = Inr s'" "buffers_inv e s" shows "buffers_inv e s'"
proof -
  from assms(1) obtain calls ds where s': "s' = s\<lparr>gl_calls := gl_calls s @ calls, drawsCounter := 1,
      draws := ds,
      lines := (lines s)\<lparr>vCounter := 0, cCounter := 0\<rparr>,
      triangles := (triangles s)\<lparr>vCounter := 0, cCounter := 0\<rparr>,
      quads := (quads s)\<lparr>vCounter := 0, tcCounter := 0, cCounter := 0\<rparr>,
      currentDepth := - 1\<rparr>" and ds: "length ds = length (draws s)"
    by (auto simp: rlglDraw_def reset_batch_def bindR_eq_Inr wr_eq_Inr)
  from assms(2) have "buffer_ok (2 * MAX_LINES_BATCH e) ((lines s)\<lparr>vCounter := 0, cCounter := 0\<rparr>)"
    "buffer_ok (3 * MAX_TRIANGLES_BATCH e) ((triangles s)\<lparr>vCounter := 0, cCounter := 0\<rparr>)"
    "buffer_ok (4 * MAX_QUADS_BATCH e) ((quads s)\<lparr>vCounter := 0, tcCounter := 0, cCounter := 0\<rparr>)"
    by (simp_all add: buffers_inv_def buffer_ok_def)
  with assms(2) ds show ?thesis by (simp add: s' buffers_inv_def)
qed

lemma assign_currentMatrix_buffers [simp]:
  "lines (assign_currentMatrix m s) = lines s"
  "triangles (assign_currentMatrix m s) = triangles s"
  "tempBuffer (assign_currentMatrix m s) = tempBuffer s"
  "tempBufferCount (assign_currentMatrix m s) = tempBufferCount s"
  by (simp_all add: assign_currentMatrix_def split: MatrixPtr.splits)

lemma exec_buffers_inv:
  assumes "exec e c s = Inr s'" "buffers_inv e s"
  shows "buffers_inv e s'"
proof (cases c)
  case Call_rlPushMatrix
  show ?thesis
  proof (cases "stackCounter s = MATRIX_STACK_SIZE - 1")
    case True
    with assms Call_rlPushMatrix show ?thesis by (simp add: rlPushMatrix_overflow)
  next
    case False
    with assms Call_rlPushMatrix show ?thesis
      by (cases "currentMatrixMode s = RL_MODELVIEW")
         (auto simp: rlPushMatrix_def bindR_eq_Inr Let_def rlLoadIdentity_def
            intro!: buffers_inv_cong [of _ s])
  qed
next
  case Call_rlPopMatrix
  with assms show ?thesis
    by (cases "stackCounter s > 0")
       (auto simp: rlPopMatrix_def bindR_eq_Inr Let_def intro!: buffers_inv_cong [of _ s])
next
  case Call_rlEnd
  with assms obtain s1 s2 where q: "flush_temp e s = Inr s1" "reconcile s1 = Inr s2"
    "s' = s2\<lparr>currentDepth := depth_increment e (currentDepth s2)\<rparr>"
    by (auto simp: rlEnd_def bindR_eq_Inr)
  have "buffers_inv e s2"
    using reconcile_buffers_inv [OF q(2) flush_temp_buffers_inv [OF q(1) assms(2)]] .
  with q(3) show ?thesis
    by (intro buffers_inv_cong [of s' s2]) simp_all
next
  case (Call_rlVertex3f px py pz)
  with assms show ?thesis by (auto dest: rlVertex3f_buffers_inv)
next
  case (Call_rlVertex2f px py)
  with assms show ?thesis by (auto simp: rlVertex2f_def dest: rlVertex3f_buffers_inv)
next
  case (Call_rlTexCoord2f tx ty)
  with assms show ?thesis by (auto dest: rlTexCoord2f_buffers_inv)
next
  case (Call_rlColor4ub r g b a)
  with assms show ?thesis by (auto dest: rlColor4ub_buffers_inv)
next
  case (Call_rlEnableTexture tid)
  with assms show ?thesis
    by (auto simp: rlEnableTexture_cases split: if_splits intro!: buffers_inv_cong [of _ s])
next
  case Call_rlglDraw
  with assms show ?thesis by (auto dest: rlglDraw_buffers_inv)
qed (use assms in \<open>auto simp: rlMatrixMode_def rlLoadIdentity_def rlMultMatrixf_def rlBegin_def
       Let_def intro!: buffers_inv_cong [of _ s]\<close>)

lemma reachable_buffers_inv: "reachable e s \<Longrightarrow> buffers_inv e s"
proof (induction rule: reachable.induct)
  case (reachable_init s)
  then show ?case
    by (simp add: after_rlglInit_def buffers_inv_def buffer_ok_def
          MAX_DRAWS_BY_TEXTURE_def TEMP_VERTEX_BUFFER_SIZE_def)
next
  case (reachable_exec s c s')
  then show ?case by (auto dest: exec_buffers_inv)
qed

lemma run_reachable: "run e cs s = Inr s' \<Longrightarrow> reachable e s \<Longrightarrow> reachable e s'"
proof (induction cs arbitrary: s)
  case Nil
  then show ?case by simp
next
  case (Cons c cs)
  then obtain s1 where "exec e c s = Inr s1" "run e cs s1 = Inr s'"
    by (auto simp: bindR_eq_Inr)
  with Cons show ?case by (blast intro: reachable_exec)
qed

lemma reachable_state0: "reachable env0 state0"
  by (rule reachable_init) (rule after_rlglInit_state0)

lemma buffers_inv_temp:
  assumes "buffers_inv e s"
  shows "0 \<le> tempBufferCount s" "tempBufferCount s \<le> int (length (tempBuffer s))"
    "nat (tempBufferCount s) \<le> length (tempBuffer s)"
    "int (length (tempBuffer s)) = TEMP_VERTEX_BUFFER_SIZE"
  using assms by (auto simp: buffers_inv_def TEMP_VERTEX_BUFFER_SIZE_def)

lemma buffer_ok_room:
  assumes "buffer_ok cap b" "vCounter b < cap"
  shows "0 \<le> vCounter b" "3 * vCounter b + 2 < int (length (vertices b))"
  using assms by (auto simp: buffer_ok_def)

lemma buffer_ok_colors_room:
  "buffer_ok cap b \<Longrightarrow> 4 * vCounter b \<le> int (length (colors b))"
  by (auto simp: buffer_ok_def)

lemma active_vertices_length:
  "buffers_inv e t \<Longrightarrow> currentDrawMode t \<noteq> RL_DRAWMODE_OTHER \<Longrightarrow>
   length (active_vertices t) = nat (3 * active_capacity e t) \<and> 0 \<le> active_vCounter t
   \<and> active_vCounter t \<le> int (nat (active_capacity e t)) \<and> 0 \<le> active_cCounter t
   \<and> length (active_colors t) = nat (4 * active_capacity e t)"
  by (cases "currentDrawMode t")
     (simp_all add: buffers_inv_def buffer_ok_def active_vertices_def active_capacity_def
        active_vCounter_def active_cCounter_def active_colors_def)

section \<open>The ledger over call sequences\<close>







section \<open>A full ledger\<close>

lemma after_rlglInit_state64: "after_rlglInit env64 state64"
proof -
  have "0 \<le> MAX_QUADS_BATCH env64" "4 * MAX_QUADS_BATCH env64 \<le> 2 ^ index_bits env64"
    by (simp_all add: env64_def env0_def index_bits_def)
  from quad_indices_pattern [OF this] obtain idx where "quad_indices env64 = Inr idx" by blast
  then show ?thesis
    by (simp add: after_rlglInit_def)
       (simp add: env64_def env0_def state64_def state0_def MATRIX_STACK_SIZE_def
          MAX_DRAWS_BY_TEXTURE_def TEMP_VERTEX_BUFFER_SIZE_def)
qed

lemma fill_handle_next: "fill_handle (Suc k) \<noteq> fill_handle k"
  by (simp add: fill_handle_def)

lemma sdiv_nonneg: "0 \<le> v \<Longrightarrow> 0 < k \<Longrightarrow> (v::int) sdiv k = v div k"
  by (cases "v = 0") (simp_all add: signed_divide_int_def)

lemma sdiv_less_caps:
  fixes v m :: int
  assumes "0 \<le> v"
  shows "v sdiv 2 < m \<longleftrightarrow> v < 2 * m" "v sdiv 3 < m \<longleftrightarrow> v < 3 * m" "v sdiv 4 < m \<longleftrightarrow> v < 4 * m"
  using assms by (simp_all add: sdiv_nonneg) presburger+

lemma store_vertex_ok:
  assumes "0 \<le> vCounter b" "3 * vCounter b + 2 < int (length (vertices b))"
  shows "store_vertex px py pz b =
     Inr (b\<lparr>vertices := (vertices b)[nat (3 * vCounter b) := px,
                nat (3 * vCounter b + 1) := py, nat (3 * vCounter b + 2) := pz],
            vCounter := vCounter b + 1\<rparr>)"
  using assms by (simp add: store_vertex_def wr_def)

lemma count_quad_vertex_ok:
  assumes "1 \<le> drawsCounter s" "drawsCounter s \<le> int (length (draws s))"
  shows "count_quad_vertex s =
     Inr (s\<lparr>draws := (draws s)[nat (drawsCounter s - 1) :=
        (draws s ! nat (drawsCounter s - 1))\<lparr>vertexCount :=
           vertexCount (draws s ! nat (drawsCounter s - 1)) + 1\<rparr>]\<rparr>)"
  using assms by (simp add: count_quad_vertex_def rd_def wr_def)

lemma fill_round_step:
  assumes f: "filled k s" and k: "1 \<le> k" "k < 256" and e: "64 \<le> MAX_QUADS_BATCH e"
  shows "\<exists>s'. run e (fill_round k) s = Inr s' \<and> filled (Suc k) s'"
proof -
  from f have m: "currentDrawMode s = RL_QUADS" "\<not> useTempBuffer s"
    and d: "drawsCounter s = int k" "length (draws s) = 256"
      "draws s ! (k - 1) = \<lparr>textureId = fill_handle (k - 1), vertexCount = 1\<rparr>"
    and v: "vCounter (quads s) = int k" "768 \<le> length (vertices (quads s))"
    by (simp_all add: filled_def)
  have idx: "nat (int k - 1) = k - 1" using k by simp
  have ne: "fill_handle (k - 1) \<noteq> fill_handle k"
    using fill_handle_next [of "k - 1"] k by simp
  let ?s1 = "s\<lparr>drawsCounter := int k + 1,
               draws := (draws s)[k := \<lparr>textureId = fill_handle k, vertexCount = 0\<rparr>]\<rparr>"
  have en: "rlEnableTexture (fill_handle k) s = Inr ?s1"
    using d k ne by (simp add: rlEnableTexture_cases idx drawcall_make)
  have g: "vCounter (quads ?s1) sdiv 4 < MAX_QUADS_BATCH e"
    using v(1) k e by (simp add: sdiv_less_caps)
  have sv: "store_vertex 0 0 0 (quads ?s1) =
      Inr ((quads s)\<lparr>vertices := (vertices (quads s))[nat (3 * int k) := 0,
              nat (3 * int k + 1) := 0, nat (3 * int k + 2) := 0],
            vCounter := int k + 1\<rparr>)"
    using store_vertex_ok [of "quads s" 0 0 0] v k by simp
  let ?q = "(quads s)\<lparr>vertices := (vertices (quads s))[nat (3 * int k) := 0,
              nat (3 * int k + 1) := 0, nat (3 * int k + 2) := 0],
            vCounter := int k + 1\<rparr>"
  let ?s2 = "?s1\<lparr>quads := ?q\<rparr>"
  have cq: "count_quad_vertex ?s2 =
      Inr (?s2\<lparr>draws := (draws s)[k := \<lparr>textureId = fill_handle k, vertexCount = 1\<rparr>]\<rparr>)"
    using count_quad_vertex_ok [of ?s2] d k by simp
  let ?s3 = "?s2\<lparr>draws := (draws s)[k := \<lparr>textureId = fill_handle k, vertexCount = 1\<rparr>]\<rparr>"
  have vx: "rlVertex3f e 0 0 0 ?s1 = Inr ?s3"
    using m g sv cq by (simp add: rlVertex3f_def)
  have "run e (fill_round k) s = Inr ?s3"
    using en vx by (simp add: fill_round_def)
  moreover have "filled (Suc k) ?s3"
    using m d v k by (simp add: filled_def)
  ultimately show ?thesis by blast
qed

lemma fill_rounds:
  assumes "filled k s" "1 \<le> k" "k + n \<le> 256" "64 \<le> MAX_QUADS_BATCH e"
  shows "\<exists>s'. run e (concat (map fill_round [k..<k + n])) s = Inr s' \<and> filled (k + n) s'"
  using assms
proof (induction n arbitrary: k s)
  case 0
  then show ?case by simp
next
  case (Suc n)
  then have k: "k < 256" by simp
  from fill_round_step [OF Suc.prems(1,2) k Suc.prems(4)] obtain s1 where
    s1: "run e (fill_round k) s = Inr s1" "filled (Suc k) s1"
    by blast
  have "1 \<le> Suc k" "Suc k + n \<le> 256" using Suc.prems by simp_all
  from Suc.IH [OF s1(2) this Suc.prems(4)] obtain s' where
    s': "run e (concat (map fill_round [Suc k..<Suc k + n])) s1 = Inr s'" "filled (Suc k + n) s'"
    by blast
  have l: "[k..<k + Suc n] = k # [Suc k..<Suc k + n]"
    using upt_conv_Cons [of k "k + Suc n"] by (simp del: upt_Suc)
  show ?case unfolding l using s1(1) s'
    by (simp add: run_append del: upt_Suc)
qed

lemma first_round:
  assumes m: "currentDrawMode s = RL_QUADS" "\<not> useTempBuffer s"
    and d: "drawsCounter s = 1" "length (draws s) = 256" "vertexCount (draws s ! 0) = 0"
    and v: "vCounter (quads s) = 0" "768 \<le> length (vertices (quads s))"
    and e: "64 \<le> MAX_QUADS_BATCH e"
  shows "\<exists>s'. run e (fill_round 0) s = Inr s' \<and> filled 1 s'"
proof -
  let ?s1 = "s\<lparr>draws := (draws s)[0 := \<lparr>textureId = 7, vertexCount = 0\<rparr>]\<rparr>"
  have en: "rlEnableTexture 7 s = Inr ?s1"
  proof (cases "textureId (draws s ! 0) = 7")
    case True
    with d have "draws s ! 0 = \<lparr>textureId = 7, vertexCount = 0\<rparr>"
      by (cases "draws s ! 0") simp
    then have "(draws s)[0 := \<lparr>textureId = 7, vertexCount = 0\<rparr>] = draws s"
      by (simp add: list_update_same_conv d)
    with True d show ?thesis by (simp add: rlEnableTexture_cases)
  next
    case False
    with d show ?thesis by (simp add: rlEnableTexture_cases drawcall_make)
  qed
  have g: "vCounter (quads ?s1) sdiv 4 < MAX_QUADS_BATCH e"
    using v(1) e by (simp add: sdiv_less_caps)
  let ?q = "(quads s)\<lparr>vertices := (vertices (quads s))[0 := 0, 1 := 0, 2 := 0], vCounter := 1\<rparr>"
  have sv: "store_vertex 0 0 0 (quads ?s1) = Inr ?q"
    using store_vertex_ok [of "quads s" 0 0 0] v by simp
  let ?s2 = "?s1\<lparr>quads := ?q\<rparr>"
  let ?s3 = "?s2\<lparr>draws := (draws s)[0 := \<lparr>textureId = 7, vertexCount = 1\<rparr>]\<rparr>"
  have cq: "count_quad_vertex ?s2 = Inr ?s3"
    using count_quad_vertex_ok [of ?s2] d by simp
  have vx: "rlVertex3f e 0 0 0 ?s1 = Inr ?s3"
    using m g sv cq by (simp add: rlVertex3f_def)
  have "run e (fill_round 0) s = Inr ?s3"
    using en vx by (simp add: fill_round_def fill_handle_def)
  moreover have "filled 1 ?s3"
    using m d v by (simp add: filled_def fill_handle_def)
  ultimately show ?thesis by blast
qed

lemma ledger_fill_split:
  "ledger_fill 256 = fill_round 0 @ concat (map fill_round [1..<1 + 255])"
proof -
  have "[0..<256] = 0 # [1..<1 + 255]"
    using upt_conv_Cons [of 0 256] by (simp del: upt_Suc)
  then show ?thesis by (simp add: ledger_fill_def del: upt_Suc)
qed

text \<open>In every configuration with room for at least 64 quads, the 256 rounds run from the
  state \<^verbatim>\<open>rlglInit\<close> leaves and fill the ledger, and one more texture overruns it.\<close>

lemma run_ledger_fill:
  assumes i: "after_rlglInit e s0" and e: "64 \<le> MAX_QUADS_BATCH e"
  shows "\<exists>t. run e (Call_rlBegin RL_QUADS # ledger_fill 256) s0 = Inr t \<and> filled 256 t"
proof -
  let ?s = "rlBegin RL_QUADS s0"
  from i e have "currentDrawMode ?s = RL_QUADS" "\<not> useTempBuffer ?s"
    "drawsCounter ?s = 1" "length (draws ?s) = 256" "vertexCount (draws ?s ! 0) = 0"
    "vCounter (quads ?s) = 0" "768 \<le> length (vertices (quads ?s))"
    by (simp_all add: after_rlglInit_def rlBegin_def MAX_DRAWS_BY_TEXTURE_def)
  from first_round [OF this e] obtain s where
    s: "run e (fill_round 0) ?s = Inr s" "filled 1 s"
    by blast
  from fill_rounds [OF s(2) _ _ e, of 255] obtain t where
    t: "run e (concat (map fill_round [1..<1 + 255])) s = Inr t" "filled 256 t"
    by auto
  have "run e (Call_rlBegin RL_QUADS # ledger_fill 256) s0 =
      bindR (run e (fill_round 0) ?s) (run e (concat (map fill_round [1..<1 + 255])))"
    unfolding ledger_fill_split by (simp add: run_append)
  with s(1) t show ?thesis by simp
qed

lemma full_ledger_overrun_any:
  assumes "after_rlglInit e s0" and "64 \<le> MAX_QUADS_BATCH e"
  shows "run e (Call_rlBegin RL_QUADS # ledger_fill 256 @ [Call_rlEnableTexture 7]) s0
       = Inl OutOfBounds"
proof -
  from run_ledger_fill [OF assms] obtain t where
    t: "run e (Call_rlBegin RL_QUADS # ledger_fill 256) s0 = Inr t" "filled 256 t"
    by blast
  from t(2) have f: "drawsCounter t = 256" "length (draws t) = 256"
    "draws t ! 255 = \<lparr>textureId = 9, vertexCount = 1\<rparr>"
    by (simp_all add: filled_def fill_handle_def)
  have "rlEnableTexture 7 t = Inl OutOfBounds"
    by (rule enable_texture_full_ledger) (simp_all add: f)
  moreover have "run e (Call_rlBegin RL_QUADS # ledger_fill 256 @ [Call_rlEnableTexture 7]) s0
      = bindR (run e (Call_rlBegin RL_QUADS # ledger_fill 256) s0)
          (run e [Call_rlEnableTexture 7])"
    using run_append [of e "Call_rlBegin RL_QUADS # ledger_fill 256"
        "[Call_rlEnableTexture 7]" s0]
    by simp
  ultimately show ?thesis using t(1) by simp
qed

text \<open>
  C4 fails on a full ledger.  After \<^verbatim>\<open>rlglInit\<close> with room for 64 quads, \<^verbatim>\<open>rlBegin(RL_QUADS)\<close>
  and 256 rounds of binding another texture and submitting one vertex leave
  \<^verbatim>\<open>drawsCounter\<close> = 256 = \<^verbatim>\<open>MAX_DRAWS_BY_TEXTURE\<close> with the last entry (9, 1).  A further
  \<^verbatim>\<open>rlEnableTexture(7)\<close> does not append inside the ledger: it increments \<^verbatim>\<open>drawsCounter\<close>
  to 257 and accesses \<^verbatim>\<open>draws[256]\<close>, past the end of the array (\<^verbatim>\<open>rlEnableTexture\<close> has no
  \<^verbatim>\<open>MAX_DRAWS_BY_TEXTURE\<close> check).
\<close>

theorem full_ledger_overrun:
  "after_rlglInit env64 state64
   \<and> bindR (run env64 (Call_rlBegin RL_QUADS # ledger_fill 256) state64)
        (\<lambda>t. Inr (drawsCounter t, int (length (draws t)), draws t ! 255))
       = Inr (256, 256, \<lparr>textureId = 9, vertexCount = 1\<rparr>)
   \<and> run env64 (Call_rlBegin RL_QUADS # ledger_fill 256 @ [Call_rlEnableTexture 7]) state64
       = Inl OutOfBounds"
proof -
  have e: "64 \<le> MAX_QUADS_BATCH env64" by (simp add: env64_def)
  from run_ledger_fill [OF after_rlglInit_state64 e] obtain t where
    t: "run env64 (Call_rlBegin RL_QUADS # ledger_fill 256) state64 = Inr t" "filled 256 t"
    by blast
  from t(2) have f: "drawsCounter t = 256" "length (draws t) = 256"
    "draws t ! 255 = \<lparr>textureId = 9, vertexCount = 1\<rparr>"
    by (simp_all add: filled_def fill_handle_def)
  from t(1) f after_rlglInit_state64 full_ledger_overrun_any [OF after_rlglInit_state64 e]
  show ?thesis by simp
qed

section \<open>Shapes without colours or texture coordinates\<close>

text \<open>
  C2 fails for a shape with no colour call in a batch that holds no colour.  A triangle
  of three \<^verbatim>\<open>rlVertex3f\<close> calls right after \<^verbatim>\<open>rlglInit\<close>: at \<^verbatim>\<open>rlEnd\<close> the vertex count is
  3 and the colour count 0, and the colour loop reads \<^verbatim>\<open>colors[4*cCounter - 4]\<close>, that is
  \<^verbatim>\<open>colors[-4]\<close>, outside the array.  No default colour is defined.
\<close>

theorem colorless_shape_faults:
  "run env0 plain_triangle state0 = Inl OutOfBounds
   \<and> bindR (run env0 (butlast plain_triangle) state0)
        (\<lambda>t. Inr (vCounter (triangles t), cCounter (triangles t),
                   rd (colors (triangles t)) (4 * cCounter (triangles t) - 4)))
       = Inr (3, 0, Inl OutOfBounds)"
  by (simp add: plain_triangle_def state0_def env0_def run_defs)

text \<open>
  C3 (as the code has it).  For a quads shape, with the counts the quads buffer has once
  \<^verbatim>\<open>rlEnd\<close> has replayed the staged points (if any): when the texcoord count is less than
  the vertex count and at least one colour is stored in the buffer (so that the colour
  loop, which runs first, can proceed), \<^verbatim>\<open>rlEnd\<close> returns with the texcoord count equal
  to the vertex count; every missing slot holds (0.0, 0.0), and the slots written before
  and the position data are unchanged.
\<close>

theorem end_zero_fills_texcoords:
  assumes rs: "reachable e s"
    and st: "flush_temp e s = Inr s1"
    and mode: "currentDrawMode s1 = RL_QUADS"
    and lt: "tcCounter (quads s1) < vCounter (quads s1)"
    and col: "1 \<le> cCounter (quads s1)"
  shows "\<exists>s'. rlEnd e s = Inr s'
     \<and> tcCounter (quads s') = vCounter (quads s1)
     \<and> vCounter (quads s') = vCounter (quads s1)
     \<and> vertices (quads s') = vertices (quads s1)
     \<and> (\<forall>i. tcCounter (quads s1) \<le> int i \<and> int i < vCounter (quads s1) \<longrightarrow>
           texcoord_entry (texcoords (quads s')) i = (0, 0))
     \<and> (\<forall>i. int i < tcCounter (quads s1) \<longrightarrow>
           texcoord_entry (texcoords (quads s')) i = texcoord_entry (texcoords (quads s1)) i)"
proof -
  have bi: "buffers_inv e s1"
    using flush_temp_buffers_inv [OF st reachable_buffers_inv [OF rs]] .
  then have ok: "buffer_ok (4 * MAX_QUADS_BATCH e) (quads s1)"
    and tx: "length (texcoords (quads s1)) = nat (2 * (4 * MAX_QUADS_BATCH e))"
      "0 \<le> tcCounter (quads s1)"
    by (simp_all add: buffers_inv_def)
  define t v where "t = nat (tcCounter (quads s1))" and "v = nat (vCounter (quads s1))"
  have tv: "tcCounter (quads s1) = int t" "vCounter (quads s1) = int v" "t < v"
    using tx(2) lt by (simp_all add: t_def v_def)
  have len: "2 * v \<le> length (texcoords (quads s1))"
    using ok tx(1) tv(2) by (auto simp: buffer_ok_def split: if_splits)
  have c: "vCounter (quads s1) \<le> cCounter (quads s1)
        \<or> (1 \<le> cCounter (quads s1) \<and> 4 * vCounter (quads s1) \<le> int (length (colors (quads s1))))"
    using col buffer_ok_colors_room [OF ok] by simp
  from rlEnd_zero_fills [OF st mode tv len c] show ?thesis
    by (simp add: tv)
qed

theorem end_zero_fills_texcoords_witness:
  "bindR (run env0 (quad_one_texcoord @ [Call_rlEnd]) state0)
     (\<lambda>t. Inr (tcCounter (quads t), vCounter (quads t),
                map (texcoord_entry (texcoords (quads t))) [0, 1, 2, 3]))
   = Inr (4, 4, [(5, 7), (0, 0), (0, 0), (0, 0)])"
proof -
  have "\<exists>t. run env0 quad_one_texcoord state0 = Inr t \<and> \<not> useTempBuffer t
      \<and> currentDrawMode t = RL_QUADS \<and> tcCounter (quads t) = 1
      \<and> vCounter (quads t) = 4 \<and> cCounter (quads t) = 1
      \<and> texcoord_entry (texcoords (quads t)) 0 = (5, 7)"
    by (simp add: quad_one_texcoord_def state0_def env0_def run_defs texcoord_entry_def)
  then obtain t where t: "run env0 quad_one_texcoord state0 = Inr t" "\<not> useTempBuffer t"
      "currentDrawMode t = RL_QUADS" "tcCounter (quads t) = 1"
      "vCounter (quads t) = 4" "cCounter (quads t) = 1"
      "texcoord_entry (texcoords (quads t)) 0 = (5, 7)"
    by blast
  have r: "reachable env0 t" using run_reachable [OF t(1) reachable_state0] .
  have ft: "flush_temp env0 t = Inr t" using t(2) by (simp add: flush_temp_def)
  from end_zero_fills_texcoords [OF r ft t(3)] t(4-6)
  obtain s' where s': "rlEnd env0 t = Inr s'" "tcCounter (quads s') = 4"
      "vCounter (quads s') = 4"
      "\<forall>i. 1 \<le> int i \<and> int i < 4 \<longrightarrow> texcoord_entry (texcoords (quads s')) i = (0, 0)"
      "\<forall>i. int i < 1 \<longrightarrow>
           texcoord_entry (texcoords (quads s')) i = texcoord_entry (texcoords (quads t)) i"
    by auto
  from s'(4) have "texcoord_entry (texcoords (quads s')) 1 = (0, 0)"
    "texcoord_entry (texcoords (quads s')) 2 = (0, 0)"
    "texcoord_entry (texcoords (quads s')) 3 = (0, 0)"
    by simp_all
  moreover from s'(5) t(7) have "texcoord_entry (texcoords (quads s')) 0 = (5, 7)" by simp
  ultimately show ?thesis using t(1) s'(1-3) by (simp add: run_append)
qed

text \<open>
  C3 as the specification states it fails: a quad with the single texture coordinate
  (5, 7) ends with (0, 0) in its fourth slot, not (5, 7).
\<close>

theorem texcoord_zero_fill_counterexample:
  "bindR (run env0 (quad_one_texcoord @ [Call_rlEnd]) state0)
     (\<lambda>t. Inr (texcoord_entry (texcoords (quads t)) 0, texcoord_entry (texcoords (quads t)) 3))
   = Inr ((5, 7), (0, 0))"
  by (simp add: quad_one_texcoord_def state0_def env0_def run_defs texcoord_entry_def)

section \<open>The quad draws of a flush\<close>

lemma no_indexed_draw_before:
  "\<not> list_ex is_indexed_draw (UpdateDefaultBuffers s)"
  "\<not> list_ex is_indexed_draw (quads_bind s)"
  "\<not> list_ex is_indexed_draw (quads_unbind s)"
  "\<not> list_ex is_indexed_draw (bind_position_color s bufs)"
  by (simp_all add: UpdateDefaultBuffers_def quads_bind_def quads_unbind_def
        bind_position_color_def)

lemma draw_calls_split:
  assumes "0 \<le> drawsCounter s" "drawsCounter s \<le> int (length (draws s))"
  shows "\<exists>pre post. draw_calls e s = Inr (pre
            @ (if 0 < vCounter (quads s)
               then concat (map (planned_calls (graphics_api e)) (quad_draw_plan (ledger s) 0))
               else [])
            @ post)
        \<and> \<not> list_ex is_indexed_draw pre \<and> \<not> list_ex is_indexed_draw post"
proof (cases "0 < vCounter (quads s)")
  case True
  let ?plan = "concat (map (planned_calls (graphics_api e)) (quad_draw_plan (ledger s) 0))"
  let ?pre = "UpdateDefaultBuffers s @
        [GlUseProgram (shader_id (currentShader s)),
         GlUniformMatrix4fv (mvpLoc (currentShader s)) 1 False
           (MatrixToFloat (MatrixMultiply e (modelview s) (projection s))),
         GlUniform1i (mapDiffuseLoc (currentShader s)) 0,
         GlUniform4f (tintColorLoc (currentShader s)) 1 1 1 1] @
        (if vCounter (lines s) > 0
         then [GlBindTexture GL_TEXTURE_2D (whiteTexture s)] @
              (if vaoSupported s then [GlBindVertexArray (vaoLines s)]
               else bind_position_color s (linesBuffer s)) @
              [GlDrawArrays GL_LINES 0 (vCounter (lines s))] @
              (if \<not> vaoSupported s then [GlBindBuffer GL_ARRAY_BUFFER 0] else []) @
              [GlBindTexture GL_TEXTURE_2D 0]
         else []) @
        (if vCounter (triangles s) > 0
         then [GlBindTexture GL_TEXTURE_2D (whiteTexture s)] @
              (if vaoSupported s then [GlBindVertexArray (vaoTriangles s)]
               else bind_position_color s (trianglesBuffer s)) @
              [GlDrawArrays GL_TRIANGLES 0 (vCounter (triangles s))] @
              (if \<not> vaoSupported s then [GlBindBuffer GL_ARRAY_BUFFER 0] else []) @
              [GlBindTexture GL_TEXTURE_2D 0]
         else []) @
        quads_bind s"
  let ?post = "quads_unbind s @ (if vaoSupported s then [GlBindVertexArray 0] else []) @
        [GlUseProgram 0]"
  have "draw_calls e s = Inr (?pre @ ?plan @ ?post)"
    using True by (simp add: draw_calls_def draw_quads_plan [OF True assms])
  moreover have "\<not> list_ex is_indexed_draw ?pre" "\<not> list_ex is_indexed_draw ?post"
    by (simp_all add: no_indexed_draw_before)
  ultimately show ?thesis using True by (intro exI [of _ ?pre] exI [of _ ?post]) simp
next
  case False
  let ?pre = "UpdateDefaultBuffers s @
        (if vCounter (lines s) > 0 \<or> vCounter (triangles s) > 0
         then [GlUseProgram (shader_id (currentShader s)),
               GlUniformMatrix4fv (mvpLoc (currentShader s)) 1 False
                 (MatrixToFloat (MatrixMultiply e (modelview s) (projection s))),
               GlUniform1i (mapDiffuseLoc (currentShader s)) 0,
               GlUniform4f (tintColorLoc (currentShader s)) 1 1 1 1]
         else []) @
        (if vCounter (lines s) > 0
         then [GlBindTexture GL_TEXTURE_2D (whiteTexture s)] @
              (if vaoSupported s then [GlBindVertexArray (vaoLines s)]
               else bind_position_color s (linesBuffer s)) @
              [GlDrawArrays GL_LINES 0 (vCounter (lines s))] @
              (if \<not> vaoSupported s then [GlBindBuffer GL_ARRAY_BUFFER 0] else []) @
              [GlBindTexture GL_TEXTURE_2D 0]
         else []) @
        (if vCounter (triangles s) > 0
         then [GlBindTexture GL_TEXTURE_2D (whiteTexture s)] @
              (if vaoSupported s then [GlBindVertexArray (vaoTriangles s)]
               else bind_position_color s (trianglesBuffer s)) @
              [GlDrawArrays GL_TRIANGLES 0 (vCounter (triangles s))] @
              (if \<not> vaoSupported s then [GlBindBuffer GL_ARRAY_BUFFER 0] else []) @
              [GlBindTexture GL_TEXTURE_2D 0]
         else [])"
  let ?post = "(if vaoSupported s then [GlBindVertexArray 0] else []) @ [GlUseProgram 0]"
  have "draw_calls e s = Inr (?pre @ ?post)"
    using False by (simp add: draw_calls_def draw_quads_def)
  moreover have "\<not> list_ex is_indexed_draw ?pre" "\<not> list_ex is_indexed_draw ?post"
    by (simp_all add: no_indexed_draw_before)
  ultimately show ?thesis using False by (intro exI [of _ ?pre] exI [of _ ?post]) simp
qed

lemma filter_none: "\<not> list_ex P xs \<Longrightarrow> filter P xs = []"
  by (induction xs) auto

text \<open>
  C5.  \<^verbatim>\<open>rlglDraw\<close> on a state whose ledger lies inside the \<^verbatim>\<open>draws\<close> array (every
  reachable state) returns, and the OpenGL calls it adds are: calls that are no indexed
  draw; then, when the quads buffer holds vertices, for each ledger entry in order the
  binding of its texture and one \<^verbatim>\<open>glDrawElements\<close> of \<open>(vertexCount / 4) * 6\<close> indices at the
  running index offset (passed in bytes), the offset then advancing by that count; then
  calls that are no indexed draw.  With an empty quads buffer the flush makes no indexed
  draw.  The index array built by \<^verbatim>\<open>LoadDefaultBuffers\<close> has \<^verbatim>\<open>6*MAX_QUADS_BATCH\<close> entries,
  the sextuple of quad \<open>k\<close> is \<open>4k, 4k+1, 4k+2, 4k, 4k+2, 4k+3\<close> for every
  \<open>k < MAX_QUADS_BATCH\<close> (the indices fitting the index type), and in every reachable
  state the quads buffer still holds that array.
\<close>

theorem quad_draws_and_index_pattern:
  assumes "draws s \<noteq> []" and "0 \<le> drawsCounter s" and "drawsCounter s \<le> int (length (draws s))"
    and "0 \<le> MAX_QUADS_BATCH e" and "4 * MAX_QUADS_BATCH e \<le> 2 ^ index_bits e"
  shows "(\<exists>s' pre post. rlglDraw e s = Inr s'
            \<and> gl_calls s' = gl_calls s @ pre
                 @ (if 0 < vCounter (quads s)
                    then concat (map (planned_calls (graphics_api e))
                           (quad_draw_plan (ledger s) 0))
                    else [])
                 @ post
            \<and> \<not> list_ex is_indexed_draw pre \<and> \<not> list_ex is_indexed_draw post)
       \<and> (\<exists>idx. quad_indices e = Inr idx \<and> length idx = nat (6 * MAX_QUADS_BATCH e)
            \<and> (\<forall>k. int k < MAX_QUADS_BATCH e \<longrightarrow>
                  index_sextuple idx k = [4 * k, 4 * k + 1, 4 * k + 2, 4 * k, 4 * k + 2, 4 * k + 3])
            \<and> (reachable e s \<longrightarrow> indices (quads s) = idx))"
proof -
  from draw_calls_split [OF assms(2,3), of e] obtain pre post where
    c: "draw_calls e s = Inr (pre
            @ (if 0 < vCounter (quads s)
               then concat (map (planned_calls (graphics_api e)) (quad_draw_plan (ledger s) 0))
               else [])
            @ post)"
      "\<not> list_ex is_indexed_draw pre" "\<not> list_ex is_indexed_draw post"
    by blast
  have w: "wr (draws s) 0 \<lparr>textureId = whiteTexture s, vertexCount = 0\<rparr>
      = Inr ((draws s)[0 := \<lparr>textureId = whiteTexture s, vertexCount = 0\<rparr>])"
    using assms(1) by (simp add: wr_def)
  have "\<exists>s'. rlglDraw e s = Inr s' \<and> gl_calls s' = gl_calls s @ pre
            @ (if 0 < vCounter (quads s)
               then concat (map (planned_calls (graphics_api e)) (quad_draw_plan (ledger s) 0))
               else [])
            @ post"
    using c(1) w by (simp add: rlglDraw_def reset_batch_def)
  with c(2,3) have d: "\<exists>s' pre post. rlglDraw e s = Inr s'
            \<and> gl_calls s' = gl_calls s @ pre
                 @ (if 0 < vCounter (quads s)
                    then concat (map (planned_calls (graphics_api e))
                           (quad_draw_plan (ledger s) 0))
                    else [])
                 @ post
            \<and> \<not> list_ex is_indexed_draw pre \<and> \<not> list_ex is_indexed_draw post"
    by blast
  from quad_indices_pattern [OF assms(4,5)] obtain idx where
    idx: "quad_indices e = Inr idx" "length idx = nat (6 * MAX_QUADS_BATCH e)"
      "\<forall>k. int k < MAX_QUADS_BATCH e \<longrightarrow>
          index_sextuple idx k = [4 * k, 4 * k + 1, 4 * k + 2, 4 * k, 4 * k + 2, 4 * k + 3]"
    by blast
  have r: "indices (quads s) = idx" if "reachable e s"
    using reachable_indices [OF that] idx(1) by simp
  from d idx r show ?thesis by blast
qed

theorem quad_draws_and_index_pattern_witness:
  "bindR (run env0 three_quads state0)
     (\<lambda>t. bindR (rlglDraw env0 t) (\<lambda>u. Inr (filter is_indexed_draw (gl_calls u))))
     = Inr [GlDrawElements GL_TRIANGLES 6 GL_UNSIGNED_INT 0,
            GlDrawElements GL_TRIANGLES 6 GL_UNSIGNED_INT 24,
            GlDrawElements GL_TRIANGLES 6 GL_UNSIGNED_INT 48]
   \<and> index_sextuple (indices (quads state0)) 2 = [8, 9, 10, 8, 10, 11]"
proof -
  have e: "0 \<le> MAX_QUADS_BATCH env0" "4 * MAX_QUADS_BATCH env0 \<le> 2 ^ index_bits env0"
    by (simp_all add: env0_def index_bits_def)
  have "\<exists>t. run env0 three_quads state0 = Inr t \<and> ledger t = [(7, 4), (9, 4), (7, 4)]
      \<and> vCounter (quads t) = 12 \<and> gl_calls t = [] \<and> drawsCounter t = 3
      \<and> length (draws t) = 256"
    by (simp add: three_quads_def state0_def env0_def run_defs ledger_nth)
  then obtain t where t: "run env0 three_quads state0 = Inr t"
      "ledger t = [(7, 4), (9, 4), (7, 4)]" "vCounter (quads t) = 12" "gl_calls t = []"
      "drawsCounter t = 3" "length (draws t) = 256"
    by blast
  have h: "draws t \<noteq> []" "0 \<le> drawsCounter t" "drawsCounter t \<le> int (length (draws t))"
    using t(5,6) by auto
  from quad_draws_and_index_pattern [OF h e] t(2-4)
  obtain u pre post where u: "rlglDraw env0 t = Inr u"
      "gl_calls u = pre @ concat (map (planned_calls (graphics_api env0))
           (quad_draw_plan [(7, 4), (9, 4), (7, 4)] 0)) @ post"
      "\<not> list_ex is_indexed_draw pre" "\<not> list_ex is_indexed_draw post"
    by auto
  have "filter is_indexed_draw (gl_calls u) =
      [GlDrawElements GL_TRIANGLES 6 GL_UNSIGNED_INT 0,
       GlDrawElements GL_TRIANGLES 6 GL_UNSIGNED_INT 24,
       GlDrawElements GL_TRIANGLES 6 GL_UNSIGNED_INT 48]"
    unfolding u(2)
    by (simp add: filter_none [OF u(3)] filter_none [OF u(4)] planned_calls_def env0_def
          signed_divide_int_def)
  with t(1) u(1) have 1: "bindR (run env0 three_quads state0)
     (\<lambda>t. bindR (rlglDraw env0 t) (\<lambda>u. Inr (filter is_indexed_draw (gl_calls u))))
     = Inr [GlDrawElements GL_TRIANGLES 6 GL_UNSIGNED_INT 0,
            GlDrawElements GL_TRIANGLES 6 GL_UNSIGNED_INT 24,
            GlDrawElements GL_TRIANGLES 6 GL_UNSIGNED_INT 48]"
    by simp
  have g: "draws state0 \<noteq> []" "0 \<le> drawsCounter state0"
    "drawsCounter state0 \<le> int (length (draws state0))"
    by (simp_all add: state0_def)
  from quad_draws_and_index_pattern [OF g e] reachable_state0
  have "index_sextuple (indices (quads state0)) 2 = [4 * 2, 4 * 2 + 1, 4 * 2 + 2, 4 * 2, 4 * 2 + 2, 4 * 2 + 3]"
    by (auto simp: env0_def)
  with 1 show ?thesis by simp
qed

section \<open>Replay of the staged points at rlEnd\<close>

lemma vertex_fits:
  assumes ns: "\<not> useTempBuffer t" and md: "currentDrawMode t \<noteq> RL_DRAWMODE_OTHER"
    and bi: "buffers_inv e t" and lo: "ledger_ok t"
    and room: "active_vCounter t < active_capacity e t"
  shows "\<exists>t'. rlVertex3f e px py pz t = Inr t'
     \<and> currentDrawMode t' = currentDrawMode t \<and> \<not> useTempBuffer t'
     \<and> tempBufferCount t' = tempBufferCount t \<and> active_cCounter t' = active_cCounter t
     \<and> stdout_log t' = stdout_log t
     \<and> active_vCounter t' = active_vCounter t + 1
     \<and> active_vertices t' = (active_vertices t)[nat (3 * active_vCounter t) := px,
          nat (3 * active_vCounter t + 1) := py, nat (3 * active_vCounter t + 2) := pz]"
proof (cases "currentDrawMode t")
  case RL_LINES
  with bi room have ok: "buffer_ok (2 * MAX_LINES_BATCH e) (lines t)"
      and r: "vCounter (lines t) < 2 * MAX_LINES_BATCH e"
    by (simp_all add: buffers_inv_def active_vCounter_def active_capacity_def)
  note f = buffer_ok_room [OF ok r]
  have g: "vCounter (lines t) sdiv 2 < MAX_LINES_BATCH e"
    using f(1) r by (simp add: sdiv_less_caps)
  show ?thesis using ns RL_LINES g
    by (simp add: rlVertex3f_def store_vertex_ok [OF f] active_vCounter_def active_cCounter_def
          active_vertices_def)
next
  case RL_TRIANGLES
  with bi room have ok: "buffer_ok (3 * MAX_TRIANGLES_BATCH e) (triangles t)"
      and r: "vCounter (triangles t) < 3 * MAX_TRIANGLES_BATCH e"
    by (simp_all add: buffers_inv_def active_vCounter_def active_capacity_def)
  note f = buffer_ok_room [OF ok r]
  have g: "vCounter (triangles t) sdiv 3 < MAX_TRIANGLES_BATCH e"
    using f(1) r by (simp add: sdiv_less_caps)
  show ?thesis using ns RL_TRIANGLES g
    by (simp add: rlVertex3f_def store_vertex_ok [OF f] active_vCounter_def active_cCounter_def
          active_vertices_def)
next
  case RL_QUADS
  with bi room have ok: "buffer_ok (4 * MAX_QUADS_BATCH e) (quads t)"
      and r: "vCounter (quads t) < 4 * MAX_QUADS_BATCH e"
    by (simp_all add: buffers_inv_def active_vCounter_def active_capacity_def)
  note f = buffer_ok_room [OF ok r]
  have g: "vCounter (quads t) sdiv 4 < MAX_QUADS_BATCH e"
    using f(1) r by (simp add: sdiv_less_caps)
  from lo have d: "1 \<le> drawsCounter t" "drawsCounter t \<le> int (length (draws t))"
    by (simp_all add: ledger_ok_def)
  show ?thesis using ns RL_QUADS g d
    by (simp add: rlVertex3f_def store_vertex_ok [OF f] count_quad_vertex_ok
          active_vCounter_def active_cCounter_def active_vertices_def)
next
  case RL_DRAWMODE_OTHER
  with md show ?thesis by simp
qed

lemma rlVertex3f_ledger_ok:
  assumes "rlVertex3f e px py pz s = Inr s'" "ledger_ok s"
  shows "ledger_ok s'"
proof (cases "useTempBuffer s \<or> currentDrawMode s \<noteq> RL_QUADS")
  case True
  from rlVertex3f_other [OF assms(1) True] assms(2) show ?thesis
    by (simp add: ledger_ok_def)
next
  case False
  with vertex_step [OF assms(2) assms(1)] show ?thesis by simp
qed

lemma vertex_call_exec:
  "exec e (vertex_call p) t = rlVertex3f e (vec_x p) (vec_y p) (vec_z p) t"
  by (simp add: vertex_call_def)

lemma replay_fits:
  assumes "\<not> useTempBuffer t" "currentDrawMode t \<noteq> RL_DRAWMODE_OTHER"
    "buffers_inv e t" "ledger_ok t"
    "active_vCounter t + int (length ps) \<le> active_capacity e t"
  shows "\<exists>t'. run e (map vertex_call ps) t = Inr t'
     \<and> currentDrawMode t' = currentDrawMode t \<and> \<not> useTempBuffer t'
     \<and> tempBufferCount t' = tempBufferCount t \<and> active_cCounter t' = active_cCounter t
     \<and> stdout_log t' = stdout_log t
     \<and> active_vCounter t' = active_vCounter t + int (length ps)
     \<and> buffers_inv e t' \<and> ledger_ok t'
     \<and> (\<forall>j < 3 * nat (active_vCounter t). active_vertices t' ! j = active_vertices t ! j)
     \<and> (\<forall>i < length ps. vertex_entry (active_vertices t') (nat (active_vCounter t) + i) = ps ! i)"
  using assms
proof (induction ps arbitrary: t)
  case Nil
  then show ?case by simp
next
  case (Cons p ps)
  define v where "v = nat (active_vCounter t)"
  from active_vertices_length [OF Cons.prems(3,2)]
  have len: "length (active_vertices t) = nat (3 * active_capacity e t)"
    and v: "active_vCounter t = int v"
    by (simp_all add: v_def)
  from Cons.prems(5) have room1: "active_vCounter t < active_capacity e t" by simp
  from room1 v len have fit: "3 * v + 2 < length (active_vertices t)" by linarith
  from vertex_fits [OF Cons.prems(1-4) room1, of "vec_x p" "vec_y p" "vec_z p"]
  obtain t1 where t1: "rlVertex3f e (vec_x p) (vec_y p) (vec_z p) t = Inr t1"
      "currentDrawMode t1 = currentDrawMode t" "\<not> useTempBuffer t1"
      "tempBufferCount t1 = tempBufferCount t" "active_cCounter t1 = active_cCounter t"
      "stdout_log t1 = stdout_log t"
      "active_vCounter t1 = active_vCounter t + 1"
      "active_vertices t1 = (active_vertices t)[nat (3 * active_vCounter t) := vec_x p,
          nat (3 * active_vCounter t + 1) := vec_y p, nat (3 * active_vCounter t + 2) := vec_z p]"
    by blast
  have n: "nat (3 * int v) = 3 * v" "nat (3 * int v + 1) = 3 * v + 1"
    "nat (3 * int v + 2) = 3 * v + 2" "nat (int v + 1) = Suc v"
    by simp_all
  have vs1: "active_vertices t1 = (active_vertices t)[3 * v := vec_x p,
          3 * v + 1 := vec_y p, 3 * v + 2 := vec_z p]"
    using t1(8) by (simp add: v n)
  have bi1: "buffers_inv e t1" by (rule rlVertex3f_buffers_inv [OF t1(1) Cons.prems(3)])
  have lo1: "ledger_ok t1" by (rule rlVertex3f_ledger_ok [OF t1(1) Cons.prems(4)])
  have cap1: "active_capacity e t1 = active_capacity e t"
    using t1(2) by (simp add: active_capacity_def)
  have room': "active_vCounter t1 + int (length ps) \<le> active_capacity e t1"
    using Cons.prems(5) t1(7) cap1 by simp
  have md1: "currentDrawMode t1 \<noteq> RL_DRAWMODE_OTHER" using t1(2) Cons.prems(2) by simp
  from Cons.IH [OF t1(3) md1 bi1 lo1 room'] obtain t' where
    t': "run e (map vertex_call ps) t1 = Inr t'"
      "currentDrawMode t' = currentDrawMode t1" "\<not> useTempBuffer t'"
      "tempBufferCount t' = tempBufferCount t1" "active_cCounter t' = active_cCounter t1"
      "stdout_log t' = stdout_log t1"
      "active_vCounter t' = active_vCounter t1 + int (length ps)"
      "buffers_inv e t'" "ledger_ok t'"
      "\<forall>j < 3 * nat (active_vCounter t1). active_vertices t' ! j = active_vertices t1 ! j"
      "\<forall>i < length ps. vertex_entry (active_vertices t') (nat (active_vCounter t1) + i) = ps ! i"
    by blast
  have run: "run e (map vertex_call (p # ps)) t = Inr t'"
    using t1(1) t'(1) by (simp add: vertex_call_exec)
  have low1: "\<forall>j < 3 * v + 3. active_vertices t' ! j = active_vertices t1 ! j"
    using t'(10) by (simp add: t1(7) v n)
  have low: "\<forall>j < 3 * nat (active_vCounter t). active_vertices t' ! j = active_vertices t ! j"
    using low1 by (simp add: v vs1)
  have at0: "vertex_entry (active_vertices t') v = p"
    using low1 fit by (cases p) (simp add: vertex_entry_def vs1)
  have hi: "\<forall>i < length (p # ps).
      vertex_entry (active_vertices t') (nat (active_vCounter t) + i) = (p # ps) ! i"
  proof (intro allI impI)
    fix i assume i: "i < length (p # ps)"
    show "vertex_entry (active_vertices t') (nat (active_vCounter t) + i) = (p # ps) ! i"
    proof (cases i)
      case 0
      with at0 show ?thesis by (simp add: v)
    next
      case (Suc k)
      with i have "k < length ps" by simp
      with t'(11) have "vertex_entry (active_vertices t') (nat (active_vCounter t1) + k) = ps ! k"
        by blast
      then show ?thesis by (simp add: Suc t1(7) v n)
    qed
  qed
  from run t'(2-9) t1(2-7) low hi show ?case
    by (intro exI [of _ t']) simp
qed

lemma flush_temp_run:
  assumes "useTempBuffer s" "0 \<le> tempBufferCount s"
    "tempBufferCount s \<le> int (length (tempBuffer s))"
  shows "flush_temp e s =
     bindR (run e (map vertex_call (staged_transformed e s))
              (s\<lparr>tempBuffer := staged_transformed e s
                     @ drop (nat (tempBufferCount s)) (tempBuffer s),
                 useTempBuffer := False\<rparr>))
       (\<lambda>t. Inr (t\<lparr>tempBufferCount := 0\<rparr>))"
proof -
  define n where "n = nat (tempBufferCount s)"
  let ?mid = "s\<lparr>tempBuffer := staged_transformed e s @ drop n (tempBuffer s),
               useTempBuffer := False\<rparr>"
  have n: "0 + n \<le> length (tempBuffer s)" using assms by (simp add: n_def)
  have tr: "forM [0..<n] (transform_temp e) s =
      Inr (s\<lparr>tempBuffer := staged_transformed e s @ drop n (tempBuffer s)\<rparr>)"
    using transform_loop [OF n, of e] by (simp add: staged_transformed_def n_def)
  have len: "length (staged_transformed e s) = n"
    using n by (simp add: staged_transformed_def n_def)
  have m: "0 + n \<le> length (tempBuffer ?mid)" "\<not> useTempBuffer ?mid"
    using n len by simp_all
  have rp: "forM [0..<n] (replay_temp e) ?mid =
      run e (map vertex_call (staged_transformed e s)) ?mid"
    using replay_loop [OF m, of e] len by simp
  show ?thesis
    using assms(1) tr rp by (simp add: flush_temp_def n_def [symmetric])
qed

lemma reconcile_total:
  assumes bi: "buffers_inv e s"
    and col: "active_vCounter s \<le> active_cCounter s \<or> 1 \<le> active_cCounter s"
  shows "\<exists>s'. reconcile s = Inr s' \<and> currentDrawMode s' = currentDrawMode s
     \<and> useTempBuffer s' = useTempBuffer s \<and> tempBufferCount s' = tempBufferCount s
     \<and> active_vCounter s' = active_vCounter s \<and> active_vertices s' = active_vertices s
     \<and> stdout_log s' = stdout_log s"
proof (cases "currentDrawMode s")
  case RL_LINES
  with bi have ok: "buffer_ok (2 * MAX_LINES_BATCH e) (lines s)" by (simp add: buffers_inv_def)
  from col RL_LINES buffer_ok_colors_room [OF ok]
  have "vCounter (lines s) \<le> cCounter (lines s)
      \<or> (1 \<le> cCounter (lines s) \<and> 4 * vCounter (lines s) \<le> int (length (colors (lines s))))"
    by (simp add: active_vCounter_def active_cCounter_def)
  from add_colors_total [OF this] obtain b' where
    "add_colors (lines s) = Inr b'" "vCounter b' = vCounter (lines s)"
    "vertices b' = vertices (lines s)"
    by blast
  with RL_LINES show ?thesis
    by (simp add: reconcile_def active_vCounter_def active_vertices_def)
next
  case RL_TRIANGLES
  with bi have ok: "buffer_ok (3 * MAX_TRIANGLES_BATCH e) (triangles s)"
    by (simp add: buffers_inv_def)
  from col RL_TRIANGLES buffer_ok_colors_room [OF ok]
  have "vCounter (triangles s) \<le> cCounter (triangles s)
      \<or> (1 \<le> cCounter (triangles s)
          \<and> 4 * vCounter (triangles s) \<le> int (length (colors (triangles s))))"
    by (simp add: active_vCounter_def active_cCounter_def)
  from add_colors_total [OF this] obtain b' where
    "add_colors (triangles s) = Inr b'" "vCounter b' = vCounter (triangles s)"
    "vertices b' = vertices (triangles s)"
    by blast
  with RL_TRIANGLES show ?thesis
    by (simp add: reconcile_def active_vCounter_def active_vertices_def)
next
  case RL_QUADS
  with bi have ok: "buffer_ok (4 * MAX_QUADS_BATCH e) (quads s)"
    and tx: "length (texcoords (quads s)) = nat (2 * (4 * MAX_QUADS_BATCH e))"
      "0 \<le> tcCounter (quads s)"
    by (simp_all add: buffers_inv_def)
  from col RL_QUADS buffer_ok_colors_room [OF ok]
  have "vCounter (quads s) \<le> cCounter (quads s)
      \<or> (1 \<le> cCounter (quads s) \<and> 4 * vCounter (quads s) \<le> int (length (colors (quads s))))"
    by (simp add: active_vCounter_def active_cCounter_def)
  from add_colors_total [OF this] obtain b' where
    b': "add_colors (quads s) = Inr b'" "vCounter b' = vCounter (quads s)"
      "vertices b' = vertices (quads s)"
      "VertexPositionColorBuffer.more b' = VertexPositionColorBuffer.more (quads s)"
    by blast
  from ok have "0 \<le> vCounter (quads s)" "2 * vCounter (quads s) \<le> int (nat (2 * (4 * MAX_QUADS_BATCH e)))"
    by (auto simp: buffer_ok_def)
  with tx quads_more_eq [OF b'(4)] b'(2)
  have "0 \<le> tcCounter b'" "0 \<le> vCounter b'" "2 * vCounter b' \<le> int (length (texcoords b'))"
    by simp_all
  from add_texcoords_total [OF this] obtain q' where
    "add_texcoords b' = Inr q'" "vCounter q' = vCounter b'" "vertices q' = vertices b'"
    by blast
  with RL_QUADS b' show ?thesis
    by (simp add: reconcile_def active_vCounter_def active_vertices_def)
next
  case RL_DRAWMODE_OTHER
  then show ?thesis by (simp add: reconcile_def)
qed

lemma vertex_full:
  assumes "\<not> useTempBuffer t" "currentDrawMode t \<noteq> RL_DRAWMODE_OTHER"
    "active_vCounter t = active_capacity e t"
  shows "rlVertex3f e px py pz t =
     Inl (Exited 1 (t\<lparr>stdout_log := stdout_log t @
        [(ERROR, overflow_message (currentDrawMode t), [])]\<rparr>))"
  using assms
  by (cases "currentDrawMode t")
     (simp_all add: rlVertex3f_def TraceLog_def active_vCounter_def active_capacity_def
        overflow_message_def)

lemma active_frame [simp]:
  "active_vCounter (s\<lparr>tempBufferCount := k\<rparr>) = active_vCounter s"
  "active_vCounter (s\<lparr>currentDepth := d\<rparr>) = active_vCounter s"
  "active_vCounter (s\<lparr>stdout_log := l\<rparr>) = active_vCounter s"
  "active_vCounter (s\<lparr>tempBuffer := tb, useTempBuffer := u\<rparr>) = active_vCounter s"
  "active_cCounter (s\<lparr>tempBufferCount := k\<rparr>) = active_cCounter s"
  "active_cCounter (s\<lparr>tempBuffer := tb, useTempBuffer := u\<rparr>) = active_cCounter s"
  "active_vertices (s\<lparr>tempBufferCount := k\<rparr>) = active_vertices s"
  "active_vertices (s\<lparr>currentDepth := d\<rparr>) = active_vertices s"
  "active_vertices (s\<lparr>stdout_log := l\<rparr>) = active_vertices s"
  "active_vertices (s\<lparr>tempBuffer := tb, useTempBuffer := u\<rparr>) = active_vertices s"
  "active_capacity e (s\<lparr>tempBuffer := tb, useTempBuffer := u\<rparr>) = active_capacity e s"
  by (simp_all add: active_vCounter_def active_cCounter_def active_vertices_def
        active_capacity_def split: DrawMode.split)

lemma staged_mid:
  assumes bi: "buffers_inv e s" and lo: "ledger_ok s"
  defines "mid \<equiv> s\<lparr>tempBuffer := staged_transformed e s
                     @ drop (nat (tempBufferCount s)) (tempBuffer s),
                 useTempBuffer := False\<rparr>"
  shows "buffers_inv e mid" "ledger_ok mid" "length (staged_transformed e s) = nat (tempBufferCount s)"
    "\<forall>i < nat (tempBufferCount s). staged_transformed e s ! i
        = VectorTransform e (tempBuffer s ! i) (deref_currentMatrix s)"
proof -
  from bi have n: "nat (tempBufferCount s) \<le> length (tempBuffer s)"
    by (rule buffers_inv_temp)
  then show len: "length (staged_transformed e s) = nat (tempBufferCount s)"
    by (simp add: staged_transformed_def)
  from bi n len show "buffers_inv e mid" by (simp add: buffers_inv_def mid_def)
  from lo show "ledger_ok mid" by (simp add: ledger_ok_def mid_def)
  from n show "\<forall>i < nat (tempBufferCount s). staged_transformed e s ! i
        = VectorTransform e (tempBuffer s ! i) (deref_currentMatrix s)"
    by (simp add: staged_transformed_def)
qed

lemma rlEnd_replays_staged:
  assumes bi: "buffers_inv e s" and lo: "ledger_ok s" and stg: "useTempBuffer s"
    and md: "currentDrawMode s \<noteq> RL_DRAWMODE_OTHER"
    and room: "active_vCounter s + tempBufferCount s \<le> active_capacity e s"
    and col: "active_vCounter s + tempBufferCount s \<le> active_cCounter s \<or> 1 \<le> active_cCounter s"
  shows "\<exists>s'. rlEnd e s = Inr s' \<and> \<not> useTempBuffer s' \<and> tempBufferCount s' = 0
     \<and> currentDrawMode s' = currentDrawMode s
     \<and> active_vCounter s' = active_vCounter s + tempBufferCount s
     \<and> (\<forall>i < nat (tempBufferCount s).
           vertex_entry (active_vertices s') (nat (active_vCounter s) + i)
             = VectorTransform e (tempBuffer s ! i) (deref_currentMatrix s))
     \<and> (\<forall>i < nat (active_vCounter s).
           vertex_entry (active_vertices s') i = vertex_entry (active_vertices s) i)"
proof -
  let ?pts = "staged_transformed e s"
  let ?mid = "s\<lparr>tempBuffer := ?pts @ drop (nat (tempBufferCount s)) (tempBuffer s),
               useTempBuffer := False\<rparr>"
  note m = staged_mid [OF bi lo]
  from bi have cnt: "0 \<le> tempBufferCount s" "tempBufferCount s \<le> int (length (tempBuffer s))"
    by (rule buffers_inv_temp)+
  have r: "active_vCounter ?mid + int (length ?pts) \<le> active_capacity e ?mid"
    using room cnt m(3) by simp
  have "\<not> useTempBuffer ?mid" "currentDrawMode ?mid \<noteq> RL_DRAWMODE_OTHER" using md by simp_all
  from replay_fits [OF this m(1,2) r] obtain t' where
    t': "run e (map vertex_call ?pts) ?mid = Inr t'"
      "currentDrawMode t' = currentDrawMode s" "\<not> useTempBuffer t'"
      "active_cCounter t' = active_cCounter s"
      "active_vCounter t' = active_vCounter s + tempBufferCount s"
      "buffers_inv e t'"
      "\<forall>j < 3 * nat (active_vCounter s). active_vertices t' ! j = active_vertices s ! j"
      "\<forall>i < length ?pts. vertex_entry (active_vertices t') (nat (active_vCounter s) + i) = ?pts ! i"
    using cnt m(3) by auto
  let ?s1 = "t'\<lparr>tempBufferCount := 0\<rparr>"
  have f: "flush_temp e s = Inr ?s1"
    using flush_temp_run [OF stg cnt, of e] t'(1) by simp
  have bi1: "buffers_inv e ?s1"
    using t'(6) by (simp add: buffers_inv_def TEMP_VERTEX_BUFFER_SIZE_def)
  have col1: "active_vCounter ?s1 \<le> active_cCounter ?s1 \<or> 1 \<le> active_cCounter ?s1"
    using col t'(4,5) by simp
  from reconcile_total [OF bi1 col1] obtain s2 where
    s2: "reconcile ?s1 = Inr s2" "currentDrawMode s2 = currentDrawMode ?s1"
      "useTempBuffer s2 = useTempBuffer ?s1" "tempBufferCount s2 = tempBufferCount ?s1"
      "active_vCounter s2 = active_vCounter ?s1" "active_vertices s2 = active_vertices ?s1"
    by blast
  let ?s' = "s2\<lparr>currentDepth := depth_increment e (currentDepth s2)\<rparr>"
  have e: "rlEnd e s = Inr ?s'" using f s2(1) by (simp add: rlEnd_def)
  have hi: "\<forall>i < nat (tempBufferCount s).
           vertex_entry (active_vertices ?s') (nat (active_vCounter s) + i)
             = VectorTransform e (tempBuffer s ! i) (deref_currentMatrix s)"
    using t'(8) m(3,4) s2(6) by simp
  have low: "\<forall>i < nat (active_vCounter s).
           vertex_entry (active_vertices ?s') i = vertex_entry (active_vertices s) i"
    using t'(7) s2(6) by (simp add: vertex_entry_def)
  from e s2(2-5) t'(2,3,5) hi low show ?thesis
    by (intro exI [of _ ?s']) simp
qed

lemma rlEnd_replay_overflow:
  assumes bi: "buffers_inv e s" and lo: "ledger_ok s" and stg: "useTempBuffer s"
    and md: "currentDrawMode s \<noteq> RL_DRAWMODE_OTHER"
    and nn: "0 \<le> active_capacity e s"
    and over: "active_capacity e s < active_vCounter s + tempBufferCount s"
  shows "\<exists>t. rlEnd e s = Inl (Exited 1 t) \<and> \<not> useTempBuffer t
     \<and> tempBufferCount t = tempBufferCount s
     \<and> currentDrawMode t = currentDrawMode s
     \<and> active_vCounter t = active_capacity e s
     \<and> stdout_log t = stdout_log s @ [(ERROR, overflow_message (currentDrawMode s), [])]
     \<and> (\<forall>i < nat (active_capacity e s - active_vCounter s).
           vertex_entry (active_vertices t) (nat (active_vCounter s) + i)
             = VectorTransform e (tempBuffer s ! i) (deref_currentMatrix s))"
proof -
  let ?pts = "staged_transformed e s"
  let ?mid = "s\<lparr>tempBuffer := ?pts @ drop (nat (tempBufferCount s)) (tempBuffer s),
               useTempBuffer := False\<rparr>"
  define k where "k = nat (active_capacity e s - active_vCounter s)"
  note m = staged_mid [OF bi lo]
  note cnt = buffers_inv_temp(1,2) [OF bi]
  from active_vertices_length [OF bi md] nn
  have v: "0 \<le> active_vCounter s" "active_vCounter s \<le> active_capacity e s" by simp_all
  have k: "int k = active_capacity e s - active_vCounter s" using v by (simp add: k_def)
  have kn: "k < length ?pts" using over k cnt m(3) by linarith
  have split: "?pts = take k ?pts @ ?pts ! k # drop (Suc k) ?pts"
    using kn by (rule id_take_nth_drop)
  have r: "active_vCounter ?mid + int (length (take k ?pts)) \<le> active_capacity e ?mid"
    using kn k by simp
  have "\<not> useTempBuffer ?mid" "currentDrawMode ?mid \<noteq> RL_DRAWMODE_OTHER" using md by simp_all
  from replay_fits [OF this m(1,2) r] obtain tk where
    tk: "run e (map vertex_call (take k ?pts)) ?mid = Inr tk"
      "currentDrawMode tk = currentDrawMode s" "\<not> useTempBuffer tk"
      "tempBufferCount tk = tempBufferCount s"
      "stdout_log tk = stdout_log s"
      "active_vCounter tk = active_capacity e s"
      "\<forall>i < length (take k ?pts).
          vertex_entry (active_vertices tk) (nat (active_vCounter s) + i) = take k ?pts ! i"
    using kn k by auto
  have cap: "active_capacity e tk = active_capacity e s"
    using tk(2) by (simp add: active_capacity_def)
  have mdk: "currentDrawMode tk \<noteq> RL_DRAWMODE_OTHER" using tk(2) md by simp
  let ?t = "tk\<lparr>stdout_log := stdout_log tk @
        [(ERROR, overflow_message (currentDrawMode tk), [])]\<rparr>"
  have x: "exec e (vertex_call (?pts ! k)) tk = Inl (Exited 1 ?t)"
    using vertex_full [OF tk(3) mdk, of e] tk(6) cap by (simp add: vertex_call_exec)
  have "run e (map vertex_call ?pts) ?mid = Inl (Exited 1 ?t)"
    by (subst split) (simp add: run_append tk(1) x)
  then have f: "flush_temp e s = Inl (Exited 1 ?t)"
    using flush_temp_run [OF stg cnt, of e] by simp
  then have e: "rlEnd e s = Inl (Exited 1 ?t)" by (simp add: rlEnd_def)
  have hi: "\<forall>i < nat (active_capacity e s - active_vCounter s).
           vertex_entry (active_vertices ?t) (nat (active_vCounter s) + i)
             = VectorTransform e (tempBuffer s ! i) (deref_currentMatrix s)"
  proof (intro allI impI)
    fix i assume "i < nat (active_capacity e s - active_vCounter s)"
    then have i: "i < k" by (simp add: k_def)
    with kn tk(7) have "vertex_entry (active_vertices tk) (nat (active_vCounter s) + i) = ?pts ! i"
      by simp
    moreover from i kn m(3) have "i < nat (tempBufferCount s)" by simp
    ultimately show "vertex_entry (active_vertices ?t) (nat (active_vCounter s) + i)
             = VectorTransform e (tempBuffer s ! i) (deref_currentMatrix s)"
      using m(4) by simp
  qed
  from e tk(2-6) hi show ?thesis
    by (intro exI [of _ ?t]) simp
qed

lemma replay_no_topology:
  "currentDrawMode t = RL_DRAWMODE_OTHER \<Longrightarrow> \<not> useTempBuffer t \<Longrightarrow>
   run e (map vertex_call ps) t = Inr t"
  by (induction ps) (simp_all add: vertex_call_exec rlVertex3f_def)

lemma rlEnd_no_topology:
  assumes bi: "buffers_inv e s" and stg: "useTempBuffer s"
    and md: "currentDrawMode s = RL_DRAWMODE_OTHER"
  shows "\<exists>s'. rlEnd e s = Inr s' \<and> \<not> useTempBuffer s' \<and> tempBufferCount s' = 0
     \<and> lines s' = lines s \<and> triangles s' = triangles s \<and> quads s' = quads s"
proof -
  let ?mid = "s\<lparr>tempBuffer := staged_transformed e s
                 @ drop (nat (tempBufferCount s)) (tempBuffer s),
               useTempBuffer := False\<rparr>"
  have "run e (map vertex_call (staged_transformed e s)) ?mid = Inr ?mid"
    using md by (intro replay_no_topology) simp_all
  then have "flush_temp e s = Inr (?mid\<lparr>tempBufferCount := 0\<rparr>)"
    using flush_temp_run [OF stg buffers_inv_temp(1,2) [OF bi], of e] by simp
  then show ?thesis using md by (simp add: rlEnd_def reconcile_def)
qed

text \<open>
  C8 (as the code has it).  In a reachable state with \<^verbatim>\<open>useTempBuffer\<close> set:
  \<^verbatim>\<open>rlVertex3f\<close>, while fewer than \<^verbatim>\<open>TEMP_VERTEX_BUFFER_SIZE\<close> points are staged, stores its
  point at \<^verbatim>\<open>tempBuffer[tempBufferCount]\<close> and increments the count, and changes nothing
  else.  \<^verbatim>\<open>rlEnd\<close> with lines, triangles or quads as the active topology: if the selected
  buffer has room for all staged points and its colours can be reconciled afterwards (at
  least one colour stored, or as many colours as vertices), \<^verbatim>\<open>rlEnd\<close> returns with the flag
  lowered and the staged count 0, and the staged points, each transformed by the matrix
  \<^verbatim>\<open>*currentMatrix\<close> of that moment, stand in submission order behind the vertices the
  buffer held.  If the buffer has not room for all of them, the points that fit are
  appended and the next one ends the process (\<^verbatim>\<open>ERROR\<close> message, \<^verbatim>\<open>exit(1)\<close>) with the flag
  lowered and the staged count not reset.  With no such topology active, \<^verbatim>\<open>rlEnd\<close> lowers
  the flag, resets the count and leaves the three buffers as they were.
\<close>

theorem staging_defers_vertices:
  assumes "reachable e s" and "useTempBuffer s"
  shows
    "(tempBufferCount s < TEMP_VERTEX_BUFFER_SIZE \<longrightarrow>
        rlVertex3f e px py pz s =
          Inr (s\<lparr>tempBuffer := (tempBuffer s)[nat (tempBufferCount s) := Vector3 px py pz],
                 tempBufferCount := tempBufferCount s + 1\<rparr>))
   \<and> (currentDrawMode s \<noteq> RL_DRAWMODE_OTHER
        \<and> active_vCounter s + tempBufferCount s \<le> active_capacity e s
        \<and> (active_vCounter s + tempBufferCount s \<le> active_cCounter s \<or> 1 \<le> active_cCounter s)
      \<longrightarrow>
        (\<exists>s'. rlEnd e s = Inr s' \<and> \<not> useTempBuffer s' \<and> tempBufferCount s' = 0
           \<and> currentDrawMode s' = currentDrawMode s
           \<and> active_vCounter s' = active_vCounter s + tempBufferCount s
           \<and> (\<forall>i < nat (tempBufferCount s).
                 vertex_entry (active_vertices s') (nat (active_vCounter s) + i)
                   = VectorTransform e (tempBuffer s ! i) (deref_currentMatrix s))
           \<and> (\<forall>i < nat (active_vCounter s).
                 vertex_entry (active_vertices s') i = vertex_entry (active_vertices s) i)))
   \<and> (currentDrawMode s \<noteq> RL_DRAWMODE_OTHER \<and> 0 \<le> active_capacity e s
        \<and> active_capacity e s < active_vCounter s + tempBufferCount s
      \<longrightarrow>
        (\<exists>t. rlEnd e s = Inl (Exited 1 t) \<and> \<not> useTempBuffer t
           \<and> tempBufferCount t = tempBufferCount s
           \<and> currentDrawMode t = currentDrawMode s
           \<and> active_vCounter t = active_capacity e s
           \<and> stdout_log t = stdout_log s @ [(ERROR, overflow_message (currentDrawMode s), [])]
           \<and> (\<forall>i < nat (active_capacity e s - active_vCounter s).
                 vertex_entry (active_vertices t) (nat (active_vCounter s) + i)
                   = VectorTransform e (tempBuffer s ! i) (deref_currentMatrix s))))
   \<and> (currentDrawMode s = RL_DRAWMODE_OTHER \<longrightarrow>
        (\<exists>s'. rlEnd e s = Inr s' \<and> \<not> useTempBuffer s' \<and> tempBufferCount s' = 0
           \<and> lines s' = lines s \<and> triangles s' = triangles s \<and> quads s' = quads s))"
proof -
  have bi: "buffers_inv e s" using assms(1) by (rule reachable_buffers_inv)
  have lo: "ledger_ok s" using reachable_ledger_inv [OF assms(1)] by (simp add: ledger_inv_def)
  have a: "rlVertex3f e px py pz s =
          Inr (s\<lparr>tempBuffer := (tempBuffer s)[nat (tempBufferCount s) := Vector3 px py pz],
                 tempBufferCount := tempBufferCount s + 1\<rparr>)"
    if "tempBufferCount s < TEMP_VERTEX_BUFFER_SIZE"
    using that assms(2) buffers_inv_temp(1,4) [OF bi] by (simp add: rlVertex3f_def wr_def)
  note b = rlEnd_replays_staged [OF bi lo assms(2)]
  note c = rlEnd_replay_overflow [OF bi lo assms(2)]
  note d = rlEnd_no_topology [OF bi assms(2)]
  from a b c d show ?thesis by blast
qed

lemma run_overfull_staged_calls: "run env0 overfull_staged_calls state0 = Inr overfull_state"
  by (simp add: overfull_staged_calls_def overfull_state_def state0_def env0_def run_defs
        rlPushMatrix_def rlLoadIdentity_def assign_currentMatrix_def
        deref_currentMatrix_def MATRIX_STACK_SIZE_def list_update_same_conv)

theorem staging_defers_vertices_witness:
  "reachable env0 staged_state \<and> useTempBuffer staged_state
   \<and> rlVertex3f env0 7 8 9 staged_state =
       Inr (staged_state\<lparr>tempBuffer := (tempBuffer staged_state)[2 := Vector3 7 8 9],
                         tempBufferCount := 3\<rparr>)
   \<and> bindR (rlEnd env0 staged_state)
        (\<lambda>u. Inr (useTempBuffer u, tempBufferCount u, vCounter (lines u),
                   vertex_entry (vertices (lines u)) 0, vertex_entry (vertices (lines u)) 1))
       = Inr (False, 0, 2, Vector3 11 22 33, Vector3 14 25 36)
   \<and> reachable env0 overfull_state \<and> useTempBuffer overfull_state
   \<and> (case rlEnd env0 overfull_state of
         Inl (Exited code t) \<Rightarrow>
           code = 1 \<and> \<not> useTempBuffer t \<and> tempBufferCount t = 5 \<and> vCounter (lines t) = 4
           \<and> stdout_log t = [(ERROR, ''MAX_LINES_BATCH overflow'', [])]
       | Inl OutOfBounds \<Rightarrow> False
       | Inr t \<Rightarrow> False)"
proof -
  have r: "reachable env0 staged_state"
    using run_reachable [OF run_staged_calls reachable_state0] .
  have u: "useTempBuffer staged_state" by (simp add: staged_state_def)
  have f: "tempBufferCount staged_state = 2" "currentDrawMode staged_state = RL_LINES"
    "active_vCounter staged_state = 0" "active_cCounter staged_state = 1"
    "active_capacity env0 staged_state = 4"
    "tempBuffer staged_state ! 0 = Vector3 1 2 3" "tempBuffer staged_state ! 1 = Vector3 4 5 6"
    "deref_currentMatrix staged_state = shift_matrix"
    by (simp_all add: staged_state_def state0_def env0_def active_vCounter_def
          active_cCounter_def active_capacity_def deref_currentMatrix_def)
  note t = staging_defers_vertices [OF r u]
  from t [of 7 8 9] f(1)
  have 1: "rlVertex3f env0 7 8 9 staged_state =
       Inr (staged_state\<lparr>tempBuffer := (tempBuffer staged_state)[2 := Vector3 7 8 9],
                         tempBufferCount := 3\<rparr>)"
    by (simp add: TEMP_VERTEX_BUFFER_SIZE_def)
  from t [of 0 0 0] f(1-5)
  obtain s' where s': "rlEnd env0 staged_state = Inr s'" "\<not> useTempBuffer s'"
      "tempBufferCount s' = 0" "currentDrawMode s' = RL_LINES" "active_vCounter s' = 2"
      "\<forall>i < 2. vertex_entry (active_vertices s') i
           = VectorTransform env0 (tempBuffer staged_state ! i) shift_matrix"
    by (auto simp: f(8))
  from s'(6) have "vertex_entry (active_vertices s') 0
        = VectorTransform env0 (tempBuffer staged_state ! 0) shift_matrix"
    "vertex_entry (active_vertices s') 1
        = VectorTransform env0 (tempBuffer staged_state ! 1) shift_matrix"
    by simp_all
  then have "vertex_entry (active_vertices s') 0 = Vector3 11 22 33"
    "vertex_entry (active_vertices s') 1 = Vector3 14 25 36"
    unfolding f(6,7) by (simp_all add: env0_def shift_matrix_def identity_matrix_def)
  with s'(1-5) have 2: "bindR (rlEnd env0 staged_state)
        (\<lambda>u. Inr (useTempBuffer u, tempBufferCount u, vCounter (lines u),
                   vertex_entry (vertices (lines u)) 0, vertex_entry (vertices (lines u)) 1))
       = Inr (False, 0, 2, Vector3 11 22 33, Vector3 14 25 36)"
    by (simp add: active_vCounter_def active_vertices_def)
  have r2: "reachable env0 overfull_state"
    using run_reachable [OF run_overfull_staged_calls reachable_state0] .
  have u2: "useTempBuffer overfull_state" by (simp add: overfull_state_def)
  have g: "tempBufferCount overfull_state = 5" "currentDrawMode overfull_state = RL_LINES"
    "active_vCounter overfull_state = 0" "active_capacity env0 overfull_state = 4"
    "stdout_log overfull_state = []"
    by (simp_all add: overfull_state_def state0_def env0_def active_vCounter_def
          active_capacity_def)
  from staging_defers_vertices [OF r2 u2, of 0 0 0] g
  obtain t where t: "rlEnd env0 overfull_state = Inl (Exited 1 t)" "\<not> useTempBuffer t"
      "tempBufferCount t = 5" "currentDrawMode t = RL_LINES" "active_vCounter t = 4"
      "stdout_log t = [(ERROR, overflow_message RL_LINES, [])]"
    by auto
  then have 3: "(case rlEnd env0 overfull_state of
         Inl (Exited code t) \<Rightarrow>
           code = 1 \<and> \<not> useTempBuffer t \<and> tempBufferCount t = 5 \<and> vCounter (lines t) = 4
           \<and> stdout_log t = [(ERROR, ''MAX_LINES_BATCH overflow'', [])]
       | Inl OutOfBounds \<Rightarrow> False
       | Inr t \<Rightarrow> False)"
    by (simp add: active_vCounter_def overflow_message_def)
  from r u 1 2 r2 u2 3 show ?thesis by simp
qed

text \<open>
  C8 as the specification states it fails: five line vertices staged after
  \<^verbatim>\<open>rlPushMatrix\<close> for a lines buffer that holds four.  \<^verbatim>\<open>rlEnd\<close> replays four of them, the
  fifth ends the process with status 1; the staged count is still 5.
\<close>

theorem staged_replay_overflow_counterexample:
  "(case run env0 (overfull_staged_calls @ [Call_rlEnd]) state0 of
      Inl (Exited code t) \<Rightarrow>
        code = 1 \<and> \<not> useTempBuffer t \<and> tempBufferCount t = 5 \<and> vCounter (lines t) = 4
        \<and> stdout_log t = [(ERROR, ''MAX_LINES_BATCH overflow'', [])]
    | Inl OutOfBounds \<Rightarrow> False
    | Inr t \<Rightarrow> False)"
  by (simp add: run_append run_overfull_staged_calls)
     (simp add: overfull_state_def state0_def env0_def run_defs transform_temp_def
        replay_temp_def deref_currentMatrix_def identity_matrix_def)

end
